(* ===== verification/Prelude.thy ===== *)
theory Prelude
  imports Main "HOL-Library.Word" "HOL-Library.AList"
begin

text \<open>
  Shared vocabulary of the development: the machine integer types of the Rust sources, the
  result type of fallible code, time, the operations of the Rust standard library on \<open>str\<close>
  that the sources use, and the theorem collections that carry the component proofs.

  A Rust \<open>String\<close> or \<open>&str\<close> is modelled by its UTF-8 bytes, a HOL \<open>string\<close> (a
  \<open>char\<close> is a byte), so \<open>length\<close> is Rust's \<open>len()\<close>. Splitting and stripping at an
  ASCII pattern works on bytes, as in Rust, because an ASCII byte is never part of a longer
  UTF-8 sequence.
\<close>

named_theorems str_simps
named_theorems wf_intros
named_theorems step_defs

type_synonym u8 = "8 word"
type_synonym u16 = "16 word"
type_synonym u32 = "32 word"
type_synonym u64 = "64 word"
type_synonym bytes = "u8 list"

text \<open>
  \<open>Result<T, E>\<close> is a sum, \<open>Inl\<close> the error. \<open>bind_res\<close> is the \<open>?\<close> operator.
\<close>

type_synonym ('e, 'a) res = "'e + 'a"

fun bind_res :: "('e, 'a) res \<Rightarrow> ('a \<Rightarrow> ('e, 'b) res) \<Rightarrow> ('e, 'b) res" where
  "bind_res (Inl e) f = Inl e"
| "bind_res (Inr x) f = f x"

lemma bind_res_eq_Inr: "bind_res r f = Inr y \<longleftrightarrow> (\<exists>x. r = Inr x \<and> f x = Inr y)"
  by (cases r) auto

lemma bind_res_eq_Inl: "bind_res r f = Inl e \<longleftrightarrow> r = Inl e \<or> (\<exists>x. r = Inr x \<and> f x = Inl e)"
  by (cases r) auto

text \<open>\<open>map_err\<close>, and \<open>?\<close> in code that also changes a state.\<close>

definition map_err :: "('e \<Rightarrow> 'f) \<Rightarrow> ('e, 'a) res \<Rightarrow> ('f, 'a) res" where
  "map_err f r = (case r of Inl e \<Rightarrow> Inl (f e) | Inr x \<Rightarrow> Inr x)"

lemma map_err_simps [simp]: "map_err f (Inl e) = Inl (f e)" "map_err f (Inr x) = Inr x"
  by (simp_all add: map_err_def)

lemma map_err_eq_Inr [simp]: "map_err f r = Inr x \<longleftrightarrow> r = Inr x"
  by (cases r) simp_all

fun try_then :: "('e, 'a) res \<times> 's \<Rightarrow> ('a \<Rightarrow> 's \<Rightarrow> ('e, 'b) res \<times> 's) \<Rightarrow> ('e, 'b) res \<times> 's"
where
  "try_then (Inl e, s) f = (Inl e, s)"
| "try_then (Inr x, s) f = f x s"

lemma try_then_eq:
  "try_then p f = (r, s') \<longleftrightarrow>
     (\<exists>e. p = (Inl e, s') \<and> r = Inl e) \<or> (\<exists>x s. p = (Inr x, s) \<and> f x s = (r, s'))"
  by (cases p; cases "fst p") auto

lemma try_then_eq_Inr:
  "try_then p f = (Inr y, s') \<longleftrightarrow> (\<exists>x s. p = (Inr x, s) \<and> f x s = (Inr y, s'))"
  by (cases p; cases "fst p") auto

text \<open>
  Time: an \<open>Instant\<close> is a number of nanoseconds. \<open>elapsed\<close> and \<open>duration_since\<close>
  saturate at zero, as subtraction on \<open>nat\<close> does; \<open>as_secs\<close> drops the fraction.
\<close>

type_synonym instant = nat

definition nanos_per_sec :: nat where
  "nanos_per_sec = 1000000000"

definition elapsed :: "instant \<Rightarrow> instant \<Rightarrow> nat" where
  "elapsed now t = now - t"

definition as_secs :: "nat \<Rightarrow> nat" where
  "as_secs d = d div nanos_per_sec"

definition from_secs :: "nat \<Rightarrow> nat" where
  "from_secs s = s * nanos_per_sec"

lemma nanos_per_sec_pos [simp]: "0 < nanos_per_sec"
  by (simp add: nanos_per_sec_def)

lemma nanos_per_sec_neq [simp]: "nanos_per_sec \<noteq> 0"
  by (simp add: nanos_per_sec_def)

lemma as_secs_add: "as_secs (d + nanos_per_sec) = Suc (as_secs d)"
  by (simp add: as_secs_def nanos_per_sec_def)

lemma as_secs_less: "as_secs d < n \<longleftrightarrow> d < from_secs n"
  by (simp add: as_secs_def from_secs_def div_less_iff_less_mult)

lemma nth_update_at: "j < length xs \<Longrightarrow> xs[i := x] ! j = (if i = j then x else xs ! j)"
  by (cases "i = j") simp_all

lemma length_filter_update:
  "i < length xs \<Longrightarrow> length (filter P (xs[i := y])) + (if P (xs ! i) then 1 else 0)
     = length (filter P xs) + (if P y then 1 else 0)"
proof (induction xs arbitrary: i)
  case (Cons x xs)
  then show ?case by (cases i) auto
qed simp

section \<open>Runs of a machine\<close>

text \<open>A machine is a partial step function on events; \<open>None\<close> is an event that is not enabled.\<close>

fun run_steps :: "('s \<Rightarrow> 'e \<Rightarrow> 's option) \<Rightarrow> 's \<Rightarrow> 'e list \<Rightarrow> 's option" where
  "run_steps f s [] = Some s"
| "run_steps f s (e # es) = (case f s e of None \<Rightarrow> None | Some s' \<Rightarrow> run_steps f s' es)"

lemma run_steps_append:
  "run_steps f s (xs @ ys) = (case run_steps f s xs of None \<Rightarrow> None | Some s' \<Rightarrow> run_steps f s' ys)"
  by (induction xs arbitrary: s) (auto split: option.split)

lemma run_steps_invariant:
  assumes "run_steps f s es = Some s'" "P s" "\<And>s e s'. P s \<Longrightarrow> f s e = Some s' \<Longrightarrow> P s'"
  shows "P s'"
  using assms(1,2) by (induction es arbitrary: s) (auto split: option.splits dest: assms(3))

text \<open>An invariant that may speak of the events so far.\<close>

lemma run_steps_history:
  assumes "run_steps f s0 es = Some s" and "P [] s0"
    and step: "\<And>es s e s'. P es s \<Longrightarrow> f s e = Some s' \<Longrightarrow> P (es @ [e]) s'"
  shows "P es s"
  using assms(1)
proof (induction es arbitrary: s rule: rev_induct)
  case Nil
  then show ?case using assms(2) by simp
next
  case (snoc e es)
  then obtain s1 where "run_steps f s0 es = Some s1" "f s1 e = Some s"
    by (auto simp: run_steps_append split: option.splits)
  then show ?case using snoc.IH step by blast
qed

section \<open>Prefixes, suffixes and splitting\<close>

fun strip_prefix :: "string \<Rightarrow> string \<Rightarrow> string option" where
  "strip_prefix [] s = Some s"
| "strip_prefix (p # ps) [] = None"
| "strip_prefix (p # ps) (c # cs) = (if p = c then strip_prefix ps cs else None)"

lemma strip_prefix_eq_Some: "strip_prefix p s = Some r \<longleftrightarrow> s = p @ r"
  by (induction p s rule: strip_prefix.induct) auto

lemma strip_prefix_append [simp, str_simps]: "strip_prefix p (p @ r) = Some r"
  by (simp add: strip_prefix_eq_Some)

lemma strip_prefix_eq_None: "strip_prefix p s = None \<longleftrightarrow> (\<forall>r. s \<noteq> p @ r)"
  by (metis not_Some_eq strip_prefix_eq_Some)

definition starts_with :: "string \<Rightarrow> string \<Rightarrow> bool" where
  "starts_with p s \<longleftrightarrow> strip_prefix p s \<noteq> None"

definition strip_suffix :: "string \<Rightarrow> string \<Rightarrow> string option" where
  "strip_suffix p s = map_option rev (strip_prefix (rev p) (rev s))"

definition ends_with :: "string \<Rightarrow> string \<Rightarrow> bool" where
  "ends_with p s \<longleftrightarrow> strip_suffix p s \<noteq> None"

lemma starts_with_iff: "starts_with p s \<longleftrightarrow> (\<exists>r. s = p @ r)"
  by (auto simp: starts_with_def strip_prefix_eq_Some)

lemma starts_with_append [simp, str_simps]: "starts_with p (p @ r)"
  by (simp add: starts_with_iff)

lemma strip_suffix_eq_Some: "strip_suffix p s = Some r \<longleftrightarrow> s = r @ p"
proof -
  have "strip_suffix p s = Some r \<longleftrightarrow> rev s = rev p @ rev r"
    by (auto simp: strip_suffix_def strip_prefix_eq_Some)
  also have "\<dots> \<longleftrightarrow> s = r @ p"
    by (metis rev_append rev_rev_ident)
  finally show ?thesis .
qed

lemma strip_suffix_append [simp, str_simps]: "strip_suffix p (r @ p) = Some r"
  by (simp add: strip_suffix_eq_Some)

lemma ends_with_iff: "ends_with p s \<longleftrightarrow> (\<exists>r. s = r @ p)"
  by (auto simp: ends_with_def strip_suffix_eq_Some)

lemma ends_with_append [simp, str_simps]: "ends_with p (r @ p)"
  by (simp add: ends_with_iff)

text \<open>\<open>s.split(c)\<close> for an ASCII character; it always yields at least one piece.\<close>

fun split_on :: "char \<Rightarrow> string \<Rightarrow> string list" where
  "split_on c [] = [[]]"
| "split_on c (x # xs) =
     (if x = c then [] # split_on c xs
      else (case split_on c xs of [] \<Rightarrow> [[x]] | y # ys \<Rightarrow> (x # y) # ys))"

lemma split_on_not_Nil [simp]: "split_on c s \<noteq> []"
  by (induction s) (auto split: list.splits)

lemma split_on_free: "c \<notin> set s \<Longrightarrow> split_on c s = [s]"
  by (induction s) auto

lemma split_on_append: "c \<notin> set s \<Longrightarrow> split_on c (s @ c # t) = s # split_on c t"
  by (induction s) auto

lemma split_on_concat:
  "\<forall>p \<in> set ps. c \<notin> set p \<Longrightarrow> split_on c (concat (map (\<lambda>p. p @ [c]) ps) @ s) = ps @ split_on c s"
  by (induction ps) (simp_all add: split_on_append)

lemma hd_split_on: "hd (split_on c s) = takeWhile (\<lambda>x. x \<noteq> c) s"
  by (induction s) (auto split: list.splits)

lemma split_on_pieces: "p \<in> set (split_on c s) \<Longrightarrow> c \<notin> set p \<and> set p \<subseteq> set s"
  by (induction s arbitrary: p) (force split: list.splits if_splits)+

text \<open>\<open>s.contains(p)\<close> for a string pattern.\<close>

fun contains_str :: "string \<Rightarrow> string \<Rightarrow> bool" where
  "contains_str p [] = (p = [])"
| "contains_str p (c # cs) = (starts_with p (c # cs) \<or> contains_str p cs)"

lemma contains_str_iff: "contains_str p s \<longleftrightarrow> (\<exists>u v. s = u @ p @ v)"
proof (induction s)
  case Nil
  then show ?case by auto
next
  case (Cons c cs)
  show ?case
  proof
    assume "contains_str p (c # cs)"
    then consider r where "c # cs = [] @ p @ r" | u v where "c # cs = (c # u) @ p @ v"
      using Cons.IH by (auto simp: starts_with_iff)
    then show "\<exists>u v. c # cs = u @ p @ v" by cases blast+
  next
    assume "\<exists>u v. c # cs = u @ p @ v"
    then obtain u v where uv: "c # cs = u @ p @ v" by blast
    show "contains_str p (c # cs)"
    proof (cases u)
      case Nil
      with uv have "starts_with p (c # cs)" by (auto simp: starts_with_iff)
      then show ?thesis by simp
    next
      case (Cons d u')
      with uv have "cs = u' @ p @ v" by simp
      with Cons.IH show ?thesis by auto
    qed
  qed
qed

section \<open>Numbers as text\<close>

text \<open>\<open>Display\<close> of an unsigned integer, and \<open>FromStr\<close> of \<open>u32\<close>: an optional
  \<open>+\<close>, then one or more digits, and an error when the value does not fit.\<close>

definition digit_char :: "nat \<Rightarrow> char" where
  "digit_char d = char_of (48 + d)"

fun show_nat :: "nat \<Rightarrow> string" where
  "show_nat n = (if n < 10 then [digit_char n] else show_nat (n div 10) @ [digit_char (n mod 10)])"

declare show_nat.simps [simp del]

definition is_ascii_digit :: "char \<Rightarrow> bool" where
  "is_ascii_digit c \<longleftrightarrow> 48 \<le> (of_char c :: nat) \<and> (of_char c :: nat) \<le> 57"

definition digit_val :: "char \<Rightarrow> nat" where
  "digit_val c = of_char c - 48"

fun digits_val :: "nat \<Rightarrow> string \<Rightarrow> nat option" where
  "digits_val acc [] = Some acc"
| "digits_val acc (c # cs) =
     (if is_ascii_digit c then digits_val (acc * 10 + digit_val c) cs else None)"

definition parse_unsigned :: "nat \<Rightarrow> string \<Rightarrow> nat option" where
  "parse_unsigned bound s =
     (let ds = (case s of CHR ''+'' # r \<Rightarrow> r | _ \<Rightarrow> s)
      in if ds = [] then None
         else (case digits_val 0 ds of None \<Rightarrow> None
               | Some n \<Rightarrow> if n < bound then Some n else None))"

definition parse_u32 :: "string \<Rightarrow> nat option" where
  "parse_u32 s = parse_unsigned (2 ^ 32) s"

lemma of_char_digit_char [simp]: "d < 10 \<Longrightarrow> (of_char (digit_char d) :: nat) = 48 + d"
  by (simp add: digit_char_def)

lemma is_ascii_digit_digit_char [simp]: "d < 10 \<Longrightarrow> is_ascii_digit (digit_char d)"
  by (simp add: is_ascii_digit_def)

lemma digit_val_digit_char [simp]: "d < 10 \<Longrightarrow> digit_val (digit_char d) = d"
  by (simp add: digit_val_def)

lemma digits_val_append:
  "digits_val acc (s @ t) = (case digits_val acc s of None \<Rightarrow> None | Some n \<Rightarrow> digits_val n t)"
  by (induction s arbitrary: acc) auto

lemma digits_val_show_nat: "digits_val 0 (show_nat n) = Some n"
proof (induction n rule: show_nat.induct)
  case (1 n)
  show ?case
  proof (cases "n < 10")
    case True
    then show ?thesis by (simp add: show_nat.simps [of n])
  next
    case False
    then show ?thesis using 1 by (simp add: show_nat.simps [of n] digits_val_append)
  qed
qed

lemma show_nat_not_Nil [simp]: "show_nat n \<noteq> []"
  by (subst show_nat.simps) simp

lemma show_nat_digits: "c \<in> set (show_nat n) \<Longrightarrow> is_ascii_digit c"
proof (induction n rule: show_nat.induct)
  case (1 n)
  show ?case
    using 1 by (cases "n < 10") (auto simp: show_nat.simps [of n])
qed

lemma parse_unsigned_show_nat: "n < b \<Longrightarrow> parse_unsigned b (show_nat n) = Some n"
proof -
  assume n: "n < b"
  have "hd (show_nat n) \<noteq> CHR ''+''"
    using show_nat_digits [of "hd (show_nat n)" n]
    by (auto simp: is_ascii_digit_def)
  then have "(case show_nat n of CHR ''+'' # r \<Rightarrow> r | _ \<Rightarrow> show_nat n) = show_nat n"
    by (cases "show_nat n" rule: list.exhaust) (auto split: char.splits bool.splits)
  with n show ?thesis
    by (simp add: parse_unsigned_def digits_val_show_nat)
qed

lemma parse_unsigned_bound: "parse_unsigned b s = Some n \<Longrightarrow> n < b"
  by (auto simp: parse_unsigned_def Let_def split: option.splits if_splits)

lemma unat_word_of_nat64: "n < 2 ^ 64 \<Longrightarrow> unat (word_of_nat n :: u64) = n"
  by (simp add: unat_of_nat take_bit_nat_eq_self)

text \<open>\<open>format!("{:02x}", b)\<close> of a byte.\<close>

lemma unat_bound8: "unat (b :: u8) < 256"
proof -
  have "unat b < 2 ^ LENGTH(8)" by (rule unsigned_less)
  then show ?thesis by simp
qed

lemma unat_bound32: "unat (b :: u32) < 2 ^ 32"
proof -
  have "unat b < 2 ^ LENGTH(32)" by (rule unsigned_less)
  then show ?thesis by simp
qed

lemma unat_bound64: "unat (b :: u64) < 2 ^ 64"
proof -
  have "unat b < 2 ^ LENGTH(64)" by (rule unsigned_less)
  then show ?thesis by simp
qed

definition hex_digit :: "nat \<Rightarrow> char" where
  "hex_digit d = (if d < 10 then char_of (48 + d) else char_of (87 + d))"

definition hex02 :: "u8 \<Rightarrow> string" where
  "hex02 b = [hex_digit (unat b div 16), hex_digit (unat b mod 16)]"

lemma length_hex02 [simp]: "length (hex02 b) = 2"
  by (simp add: hex02_def)

definition is_lower_hex :: "char \<Rightarrow> bool" where
  "is_lower_hex c \<longleftrightarrow> is_ascii_digit c \<or> (97 \<le> (of_char c :: nat) \<and> (of_char c :: nat) \<le> 102)"

lemma is_lower_hex_digit: "d < 16 \<Longrightarrow> is_lower_hex (hex_digit d)"
  by (auto simp: is_lower_hex_def hex_digit_def is_ascii_digit_def)

lemma hex02_lower_hex: "c \<in> set (hex02 b) \<Longrightarrow> is_lower_hex c"
proof -
  assume c: "c \<in> set (hex02 b)"
  have "unat b < 256" using unat_bound8 [of b] .
  then have "unat b div 16 < 16" "unat b mod 16 < 16" by auto
  with c show ?thesis by (auto simp: hex02_def is_lower_hex_digit)
qed

definition ascii_lower :: "char \<Rightarrow> char" where
  "ascii_lower c =
     (let n = (of_char c :: nat) in if 65 \<le> n \<and> n \<le> 90 then char_of (n + 32) else c)"

definition eq_ignore_ascii_case :: "string \<Rightarrow> string \<Rightarrow> bool" where
  "eq_ignore_ascii_case s t \<longleftrightarrow> map ascii_lower s = map ascii_lower t"

definition is_ascii_alphanumeric :: "char \<Rightarrow> bool" where
  "is_ascii_alphanumeric c =
     (let n = (of_char c :: nat)
      in (48 \<le> n \<and> n \<le> 57) \<or> (65 \<le> n \<and> n \<le> 90) \<or> (97 \<le> n \<and> n \<le> 122))"

text \<open>The two quotation marks, which HOL's string syntax cannot always show.\<close>

abbreviation dquote :: string where
  "dquote \<equiv> [CHR 0x22]"

abbreviation squote :: string where
  "squote \<equiv> [CHR 0x27]"

definition join_with :: "string \<Rightarrow> string list \<Rightarrow> string" where
  "join_with sep xs = (case xs of [] \<Rightarrow> [] | y # ys \<Rightarrow> y @ concat (map (\<lambda>z. sep @ z) ys))"

end
