(* ===== verification/Utf8.thy ===== *)
theory Utf8
  imports Prelude
begin

text \<open>
  UTF-8, as the Rust standard library handles it: \<open>chars()\<close> of a \<open>str\<close>,
  \<open>String::from_utf8\<close> and \<open>String::from_utf8_lossy\<close>, \<open>trim()\<close> and
  \<open>is_char_boundary\<close>. Bytes and Unicode scalar values are natural numbers here;
  \<open>str_bytes\<close> and \<open>of_chars\<close> connect them to strings.
\<close>

definition scalar :: "nat \<Rightarrow> bool" where
  "scalar c \<longleftrightarrow> c < 0xD800 \<or> (0xDFFF < c \<and> c < 0x110000)"

definition encode_cp :: "nat \<Rightarrow> nat list" where
  "encode_cp c =
     (if c < 0x80 then [c]
      else if c < 0x800 then [0xC0 + c div 64, 0x80 + c mod 64]
      else if c < 0x10000 then [0xE0 + c div 4096, 0x80 + c div 64 mod 64, 0x80 + c mod 64]
      else [0xF0 + c div 262144, 0x80 + c div 4096 mod 64, 0x80 + c div 64 mod 64, 0x80 + c mod 64])"

definition cont :: "nat \<Rightarrow> bool" where
  "cont b \<longleftrightarrow> 0x80 \<le> b \<and> b \<le> 0xBF"

text \<open>The second byte's range depends on the first: no overlong forms, no surrogates,
  nothing above \<open>U+10FFFF\<close>.\<close>

definition second_ok :: "nat \<Rightarrow> nat \<Rightarrow> bool" where
  "second_ok b c1 =
     (if b = 0xE0 then 0xA0 \<le> c1 \<and> c1 \<le> 0xBF
      else if b = 0xED then 0x80 \<le> c1 \<and> c1 \<le> 0x9F
      else if b = 0xF0 then 0x90 \<le> c1 \<and> c1 \<le> 0xBF
      else if b = 0xF4 then 0x80 \<le> c1 \<and> c1 \<le> 0x8F
      else cont c1)"

text \<open>
  One step of the decoder: a scalar value and the rest, or \<open>None\<close> for a maximal invalid
  prefix (one to three bytes), as \<open>Utf8Chunks\<close> of the standard library cuts it.
\<close>

fun next_char :: "nat list \<Rightarrow> nat option \<times> nat list" where
  "next_char [] = (None, [])"
| "next_char (b # bs) =
     (if b < 0x80 then (Some b, bs)
      else if 0xC2 \<le> b \<and> b \<le> 0xDF then
        (case bs of
           c1 # r \<Rightarrow> if cont c1 then (Some ((b - 0xC0) * 64 + (c1 - 0x80)), r) else (None, bs)
         | [] \<Rightarrow> (None, []))
      else if 0xE0 \<le> b \<and> b \<le> 0xEF then
        (case bs of
           c1 # r \<Rightarrow>
             if second_ok b c1 then
               (case r of
                  c2 # r2 \<Rightarrow>
                    if cont c2
                    then (Some ((b - 0xE0) * 4096 + (c1 - 0x80) * 64 + (c2 - 0x80)), r2)
                    else (None, r)
                | [] \<Rightarrow> (None, []))
             else (None, bs)
         | [] \<Rightarrow> (None, []))
      else if 0xF0 \<le> b \<and> b \<le> 0xF4 then
        (case bs of
           c1 # r \<Rightarrow>
             if second_ok b c1 then
               (case r of
                  c2 # r2 \<Rightarrow>
                    if cont c2 then
                      (case r2 of
                         c3 # r3 \<Rightarrow>
                           if cont c3
                           then (Some ((b - 0xF0) * 262144 + (c1 - 0x80) * 4096
                                       + (c2 - 0x80) * 64 + (c3 - 0x80)), r3)
                           else (None, r2)
                       | [] \<Rightarrow> (None, []))
                    else (None, r)
                | [] \<Rightarrow> (None, []))
             else (None, bs)
         | [] \<Rightarrow> (None, []))
      else (None, bs))"

declare next_char.simps(2) [simp del]

lemma next_char_shorter: "bs \<noteq> [] \<Longrightarrow> length (snd (next_char bs)) < length bs"
  by (cases bs) (auto simp: next_char.simps(2) split: list.split)

lemma next_char_shorter_eq: "(oc, r) = next_char bs \<Longrightarrow> bs \<noteq> [] \<Longrightarrow> length r < length bs"
  using next_char_shorter [of bs] by (metis snd_conv)

function decode_utf8 :: "nat list \<Rightarrow> nat list option" where
  "decode_utf8 bs =
     (if bs = [] then Some []
      else (case next_char bs of
              (None, r) \<Rightarrow> None
            | (Some c, r) \<Rightarrow> map_option ((#) c) (decode_utf8 r)))"
  by pat_completeness auto
termination
  by (relation "measure length") (auto dest: next_char_shorter_eq)

text \<open>The lossy decoder writes \<open>U+FFFD\<close> for each maximal invalid prefix.\<close>

definition replacement :: nat where
  "replacement = 0xFFFD"

function lossy_chars :: "nat list \<Rightarrow> nat list" where
  "lossy_chars bs =
     (if bs = [] then []
      else (case next_char bs of
              (oc, r) \<Rightarrow> (case oc of None \<Rightarrow> replacement | Some c \<Rightarrow> c) # lossy_chars r))"
  by pat_completeness auto
termination
  by (relation "measure length") (auto dest: next_char_shorter_eq)

declare decode_utf8.simps [simp del] lossy_chars.simps [simp del]

lemma decode_utf8_Nil [simp]: "decode_utf8 [] = Some []"
  by (simp add: decode_utf8.simps)

lemma lossy_chars_Nil [simp]: "lossy_chars [] = []"
  by (simp add: lossy_chars.simps)

definition encode_utf8 :: "nat list \<Rightarrow> nat list" where
  "encode_utf8 cs = concat (map encode_cp cs)"

lemma encode_utf8_simps [simp]:
  "encode_utf8 [] = []"
  "encode_utf8 (c # cs) = encode_cp c @ encode_utf8 cs"
  by (simp_all add: encode_utf8_def)

lemma encode_cp_not_Nil [simp]: "encode_cp c \<noteq> []"
  by (simp add: encode_cp_def)

section \<open>The decoder inverts the encoder\<close>

lemma div_div_64:
  "(c :: nat) div 4096 * 64 + c div 64 mod 64 = c div 64"
  "(c :: nat) div 262144 * 64 + c div 4096 mod 64 = c div 4096"
  using div_mult_mod_eq [of "c div 64" 64] div_mult_mod_eq [of "c div 4096" 64]
  by (simp_all add: div_mult2_eq [symmetric])

lemma next_char_encode_1: "c < 0x80 \<Longrightarrow> next_char (encode_cp c @ r) = (Some c, r)"
  by (simp add: encode_cp_def next_char.simps(2))

lemma next_char_encode_2:
  assumes "0x80 \<le> c" "c < 0x800"
  shows "next_char (encode_cp c @ r) = (Some c, r)"
proof -
  have "2 \<le> c div 64" "c div 64 < 32" using assms by (simp_all add: div_less_iff_less_mult less_eq_div_iff_mult_less_eq)
  moreover have "c div 64 * 64 + c mod 64 = c" by simp
  moreover have "c mod 64 < 64" by simp
  ultimately show ?thesis using assms
    by (auto simp: encode_cp_def next_char.simps(2) cont_def)
qed

lemma next_char_encode_3:
  assumes "0x800 \<le> c" "c < 0x10000" "scalar c"
  shows "next_char (encode_cp c @ r) = (Some c, r)"
proof -
  define x y z where "x = c div 4096" and "y = c div 64 mod 64" and "z = c mod 64"
  have b: "x < 16" "y < 64" "z < 64"
    using assms by (simp_all add: x_def y_def z_def div_less_iff_less_mult)
  have "c div 64 = x * 64 + y"
    unfolding x_def y_def by (simp add: div_div_64)
  then have c: "c = x * 4096 + y * 64 + z"
    using div_mult_mod_eq [of c 64] by (simp add: z_def)
  have s: "second_ok (0xE0 + x) (0x80 + y)"
    using assms b unfolding c scalar_def second_ok_def cont_def by auto
  have "encode_cp c = [0xE0 + x, 0x80 + y, 0x80 + z]"
    using assms by (simp add: encode_cp_def x_def y_def z_def)
  with b s show ?thesis
    by (simp add: next_char.simps(2) cont_def c [symmetric])
qed

lemma next_char_encode_4:
  assumes "0x10000 \<le> c" "scalar c"
  shows "next_char (encode_cp c @ r) = (Some c, r)"
proof -
  define w x y z where "w = c div 262144" and "x = c div 4096 mod 64"
    and "y = c div 64 mod 64" and "z = c mod 64"
  have u: "c < 0x110000" using assms by (auto simp: scalar_def)
  have b: "w < 5" "x < 64" "y < 64" "z < 64"
    using u by (simp_all add: w_def x_def y_def z_def div_less_iff_less_mult)
  have "c div 4096 = w * 64 + x" "c div 64 = c div 4096 * 64 + y"
    unfolding w_def x_def y_def by (simp_all add: div_div_64)
  then have c: "c = w * 262144 + x * 4096 + y * 64 + z"
    using div_mult_mod_eq [of c 64] by (simp add: z_def)
  have s: "second_ok (0xF0 + w) (0x80 + x)"
    using assms u b unfolding c second_ok_def cont_def by auto
  have "encode_cp c = [0xF0 + w, 0x80 + x, 0x80 + y, 0x80 + z]"
    using assms by (simp add: encode_cp_def w_def x_def y_def z_def)
  with b s show ?thesis
    by (simp add: next_char.simps(2) cont_def c [symmetric])
qed

lemma next_char_encode: "scalar c \<Longrightarrow> next_char (encode_cp c @ r) = (Some c, r)"
  by (cases "c < 0x80"; cases "c < 0x800"; cases "c < 0x10000")
     (simp_all add: next_char_encode_1 next_char_encode_2 next_char_encode_3
        next_char_encode_4 not_less)

lemma decode_encode_append:
  "list_all scalar cs \<Longrightarrow>
     decode_utf8 (encode_utf8 cs @ r) = map_option ((@) cs) (decode_utf8 r)"
proof (induction cs)
  case Nil
  then show ?case by (simp add: option.map_ident_strong)
next
  case (Cons c cs)
  then show ?case
    by (cases "decode_utf8 r")
       (simp_all add: decode_utf8.simps [of "encode_cp c @ _"] next_char_encode)
qed

lemma decode_encode: "list_all scalar cs \<Longrightarrow> decode_utf8 (encode_utf8 cs) = Some cs"
  using decode_encode_append [of cs "[]"] by simp

section \<open>What the decoder accepts is an encoding\<close>

lemma encode_cp_2:
  assumes "2 \<le> x" "x < 32" "y < 64"
  shows "encode_cp (x * 64 + y) = [0xC0 + x, 0x80 + y]" "scalar (x * 64 + y)"
proof -
  have "0x80 \<le> x * 64 + y" "x * 64 + y < 0x800" using assms by linarith+
  then show "encode_cp (x * 64 + y) = [0xC0 + x, 0x80 + y]" "scalar (x * 64 + y)"
    using assms by (simp_all add: encode_cp_def scalar_def div_add1_eq)
qed

lemma div_mod_64: "z < 64 \<Longrightarrow> (k * 64 + z) div 64 = (k :: nat) \<and> (k * 64 + z) mod 64 = z"
  by (simp add: div_add1_eq)

lemma encode_cp_3:
  assumes "x < 16" "y < 64" "z < 64" "0x800 \<le> x * 4096 + y * 64 + z"
  shows "encode_cp (x * 4096 + y * 64 + z) = [0xE0 + x, 0x80 + y, 0x80 + z]"
proof -
  define c where "c = x * 4096 + y * 64 + z"
  have c: "c = (x * 64 + y) * 64 + z" by (simp add: c_def)
  have d: "c div 64 = x * 64 + y" "c mod 64 = z"
    unfolding c using div_mod_64 [OF assms(3), of "x * 64 + y"] by simp_all
  have "c div 4096 = c div 64 div 64" by (simp add: div_mult2_eq [symmetric])
  then have "c div 4096 = x" "c div 64 mod 64 = y"
    using d div_mod_64 [OF assms(2), of x] by simp_all
  moreover have "c < 0x10000" "0x800 \<le> c" using assms unfolding c_def by linarith+
  ultimately show ?thesis
    using d unfolding c_def [symmetric] encode_cp_def by simp
qed

lemma encode_cp_4:
  assumes "w < 8" "x < 64" "y < 64" "z < 64" "0x10000 \<le> w * 262144 + x * 4096 + y * 64 + z"
  shows "encode_cp (w * 262144 + x * 4096 + y * 64 + z)
           = [0xF0 + w, 0x80 + x, 0x80 + y, 0x80 + z]"
proof -
  define c where "c = w * 262144 + x * 4096 + y * 64 + z"
  have c: "c = ((w * 64 + x) * 64 + y) * 64 + z" by (simp add: c_def)
  have d: "c div 64 = (w * 64 + x) * 64 + y" "c mod 64 = z"
    unfolding c using div_mod_64 [OF assms(4), of "(w * 64 + x) * 64 + y"] by simp_all
  have "c div 4096 = c div 64 div 64" "c div 262144 = c div 64 div 64 div 64"
    by (simp_all add: div_mult2_eq [symmetric])
  then have "c div 262144 = w" "c div 4096 mod 64 = x" "c div 64 mod 64 = y"
    using d div_mod_64 [OF assms(3), of "w * 64 + x"] div_mod_64 [OF assms(2), of w] by simp_all
  with d assms(5) show ?thesis
    unfolding c_def [symmetric] encode_cp_def by simp
qed

lemma cont_obtain: "cont b \<Longrightarrow> \<exists>y < 64. b = 0x80 + y"
  by (rule exI [of _ "b - 0x80"]) (auto simp: cont_def)

lemma second_ok_cont: "second_ok b c \<Longrightarrow> cont c"
  by (auto simp: second_ok_def cont_def split: if_splits)

lemma next_char_sound_3:
  assumes "0xE0 \<le> b" "b \<le> 0xEF" "second_ok b c1" "cont c2"
    and "c = (b - 0xE0) * 4096 + (c1 - 0x80) * 64 + (c2 - 0x80)"
  shows "encode_cp c = [b, c1, c2] \<and> scalar c"
proof -
  obtain y z where y: "y < 64" "c1 = 0x80 + y" and z: "z < 64" "c2 = 0x80 + z"
    using cont_obtain [OF assms(4)] cont_obtain [OF second_ok_cont [OF assms(3)]] by blast
  define x where "x = b - 0xE0"
  have x: "b = 0xE0 + x" "x < 16" using assms by (auto simp: x_def)
  have c: "c = x * 4096 + y * 64 + z" using assms(5) x y z by simp
  have k: "0x800 \<le> c" "scalar c"
    using assms(3) x(2) y(1) z(1) unfolding x(1) y(2) c second_ok_def scalar_def cont_def
    by (auto split: if_splits)
  have "encode_cp c = [0xE0 + x, 0x80 + y, 0x80 + z]"
    unfolding c using encode_cp_3 [OF x(2) y(1) z(1)] k(1) c by simp
  with k x y z show ?thesis by simp
qed

lemma next_char_sound_4:
  assumes "0xF0 \<le> b" "b \<le> 0xF4" "second_ok b c1" "cont c2" "cont c3"
    and "c = (b - 0xF0) * 262144 + (c1 - 0x80) * 4096 + (c2 - 0x80) * 64 + (c3 - 0x80)"
  shows "encode_cp c = [b, c1, c2, c3] \<and> scalar c"
proof -
  obtain x y z where x: "x < 64" "c1 = 0x80 + x" and y: "y < 64" "c2 = 0x80 + y"
    and z: "z < 64" "c3 = 0x80 + z"
    using cont_obtain [OF assms(4)] cont_obtain [OF assms(5)]
      cont_obtain [OF second_ok_cont [OF assms(3)]] by blast
  define w where "w = b - 0xF0"
  have w: "b = 0xF0 + w" "w < 5" using assms by (auto simp: w_def)
  have c: "c = w * 262144 + x * 4096 + y * 64 + z" using assms(6) w x y z by simp
  have k: "0x10000 \<le> c" "scalar c"
    using assms(3) w(2) x(1) y(1) z(1) unfolding w(1) x(2) c second_ok_def scalar_def cont_def
    by (auto split: if_splits)
  have "encode_cp c = [0xF0 + w, 0x80 + x, 0x80 + y, 0x80 + z]"
    unfolding c using encode_cp_4 [of w, OF _ x(1) y(1) z(1)] k(1) c w(2) by simp
  with k w x y z show ?thesis by simp
qed

lemma next_char_sound_2:
  assumes "0xC2 \<le> b" "b \<le> 0xDF" "cont c1" "c = (b - 0xC0) * 64 + (c1 - 0x80)"
  shows "encode_cp c = [b, c1] \<and> scalar c"
proof -
  obtain y where y: "y < 64" "c1 = 0x80 + y" using cont_obtain [OF assms(3)] by blast
  define x where "x = b - 0xC0"
  have "b = 0xC0 + x" "2 \<le> x" "x < 32" using assms by (auto simp: x_def)
  with y assms(4) show ?thesis by (simp add: encode_cp_2)
qed

lemma encode_cp_1: "c < 0x80 \<Longrightarrow> encode_cp c = [c] \<and> scalar c"
  by (simp add: encode_cp_def scalar_def)

lemma next_char_SomeE:
  assumes "next_char (b # bs) = (Some c, r)"
  obtains (one) "b < 0x80" "c = b" "r = bs"
  | (two) c1 where "0xC2 \<le> b" "b \<le> 0xDF" "cont c1" "bs = c1 # r"
      "c = (b - 0xC0) * 64 + (c1 - 0x80)"
  | (three) c1 c2 where "0xE0 \<le> b" "b \<le> 0xEF" "second_ok b c1" "cont c2" "bs = c1 # c2 # r"
      "c = (b - 0xE0) * 4096 + (c1 - 0x80) * 64 + (c2 - 0x80)"
  | (four) c1 c2 c3 where "0xF0 \<le> b" "b \<le> 0xF4" "second_ok b c1" "cont c2" "cont c3"
      "bs = c1 # c2 # c3 # r"
      "c = (b - 0xF0) * 262144 + (c1 - 0x80) * 4096 + (c2 - 0x80) * 64 + (c3 - 0x80)"
proof -
  consider "b < 0x80" | "0xC2 \<le> b" "b \<le> 0xDF" | "0xE0 \<le> b" "b \<le> 0xEF"
    | "0xF0 \<le> b" "b \<le> 0xF4" | "0x80 \<le> b" "b < 0xC2" | "0xF4 < b"
    by linarith
  then show thesis
  proof cases
    case 1
    with assms show thesis by (intro one) (simp_all add: next_char.simps(2))
  next
    case 2
    with assms show thesis
      by (cases bs) (auto simp: next_char.simps(2) split: if_split_asm intro: two)
  next
    case 3
    with assms obtain c1 bs1 where 1: "bs = c1 # bs1" "second_ok b c1"
      by (cases bs) (auto simp: next_char.simps(2) split: if_split_asm)
    with 3 assms have "bs1 \<noteq> []" by (auto simp: next_char.simps(2))
    with 1 3 assms show thesis
      by (cases bs1) (auto simp: next_char.simps(2) split: if_split_asm intro: three)
  next
    case 4
    with assms obtain c1 bs1 where 1: "bs = c1 # bs1" "second_ok b c1"
      by (cases bs) (auto simp: next_char.simps(2) split: if_split_asm)
    with 4 assms obtain c2 bs2 where 2: "bs1 = c2 # bs2" "cont c2"
      by (cases bs1) (auto simp: next_char.simps(2) split: if_split_asm)
    with 1 4 assms have "bs2 \<noteq> []" by (auto simp: next_char.simps(2))
    with 1 2 4 assms show thesis
      by (cases bs2) (auto simp: next_char.simps(2) split: if_split_asm intro: four)
  next
    case 5
    with assms show thesis by (simp add: next_char.simps(2))
  next
    case 6
    with assms show thesis by (simp add: next_char.simps(2))
  qed
qed

lemma next_char_sound:
  assumes "next_char bs = (Some c, r)"
  shows "bs = encode_cp c @ r \<and> scalar c"
proof (cases bs)
  case Nil
  with assms show ?thesis by simp
next
  case (Cons b bs')
  from assms [unfolded Cons] show ?thesis
  proof (cases rule: next_char_SomeE)
    case one
    then show ?thesis using encode_cp_1 Cons by simp
  next
    case (two c1)
    then show ?thesis using next_char_sound_2 [of b c1 c] Cons by simp
  next
    case (three c1 c2)
    then show ?thesis using next_char_sound_3 [of b c1 c2 c] Cons by simp
  next
    case (four c1 c2 c3)
    then show ?thesis using next_char_sound_4 [of b c1 c2 c3 c] Cons by simp
  qed
qed

lemma decode_utf8_sound:
  "decode_utf8 bs = Some cs \<Longrightarrow> bs = encode_utf8 cs \<and> list_all scalar cs"
proof (induction bs arbitrary: cs rule: decode_utf8.induct)
  case (1 bs)
  show ?case
  proof (cases "bs = []")
    case False
    with 1(2) obtain c r cs' where
      n: "next_char bs = (Some c, r)" "decode_utf8 r = Some cs'" "cs = c # cs'"
      by (auto simp: decode_utf8.simps [of bs] split: prod.splits option.splits)
    from 1(1) [OF False n(1) [symmetric] refl n(2)] next_char_sound [OF n(1)] n(3)
    show ?thesis by simp
  qed (use 1(2) in simp)
qed

lemma lossy_chars_valid: "decode_utf8 bs = Some cs \<Longrightarrow> lossy_chars bs = cs"
proof (induction bs arbitrary: cs rule: decode_utf8.induct)
  case (1 bs)
  show ?case
  proof (cases "bs = []")
    case False
    with 1(2) obtain c r cs' where
      n: "next_char bs = (Some c, r)" "decode_utf8 r = Some cs'" "cs = c # cs'"
      by (auto simp: decode_utf8.simps [of bs] split: prod.splits option.splits)
    from 1(1) [OF False n(1) [symmetric] refl n(2)] n False
    show ?thesis by (simp add: lossy_chars.simps [of bs])
  qed (use 1(2) in simp)
qed

lemma lossy_chars_scalar: "list_all scalar (lossy_chars bs)"
proof (induction bs rule: lossy_chars.induct)
  case (1 bs)
  then show ?case
    by (cases "bs = []"; cases "next_char bs")
       (auto simp: lossy_chars.simps [of bs] replacement_def scalar_def
          dest: next_char_sound split: option.splits)
qed

lemma encode_lossy: "decode_utf8 bs = Some cs \<Longrightarrow> encode_utf8 (lossy_chars bs) = bs"
  using decode_utf8_sound lossy_chars_valid by metis

section \<open>Strings as byte sequences\<close>

definition str_bytes :: "string \<Rightarrow> nat list" where
  "str_bytes s = map of_char s"

definition of_chars :: "nat list \<Rightarrow> string" where
  "of_chars cs = map char_of (encode_utf8 cs)"

text \<open>\<open>chars()\<close>, and the validity every Rust \<open>str\<close> has.\<close>

definition chars :: "string \<Rightarrow> nat list" where
  "chars s = lossy_chars (str_bytes s)"

definition is_str :: "string \<Rightarrow> bool" where
  "is_str s \<longleftrightarrow> decode_utf8 (str_bytes s) \<noteq> None"

text \<open>\<open>as_bytes()\<close> and \<open>String::from_utf8_lossy\<close>.\<close>

definition as_bytes :: "string \<Rightarrow> bytes" where
  "as_bytes s = map (\<lambda>c. word_of_nat (of_char c)) s"

definition from_utf8_lossy :: "bytes \<Rightarrow> string" where
  "from_utf8_lossy bs = of_chars (lossy_chars (map unat bs))"

lemma length_as_bytes [simp]: "length (as_bytes s) = length s"
  by (simp add: as_bytes_def)

lemma unat_of_char [simp]: "unat (word_of_nat (of_char c) :: u8) = of_char c"
  by (simp add: unat_of_nat take_bit_nat_eq_self)

lemma map_unat_as_bytes [simp]: "map unat (as_bytes s) = str_bytes s"
  by (simp add: as_bytes_def str_bytes_def)

lemma map_char_of_str_bytes [simp]: "map char_of (str_bytes s) = s"
  by (simp add: str_bytes_def comp_def)

lemma from_utf8_lossy_as_bytes: "is_str s \<Longrightarrow> from_utf8_lossy (as_bytes s) = s"
  by (auto simp: is_str_def from_utf8_lossy_def of_chars_def encode_lossy)

lemma of_chars_chars: "is_str s \<Longrightarrow> of_chars (chars s) = s"
  by (auto simp: is_str_def chars_def of_chars_def encode_lossy)

lemma encode_cp_bytes: "scalar c \<Longrightarrow> b \<in> set (encode_cp c) \<Longrightarrow> b < 256"
  by (auto simp: encode_cp_def scalar_def split: if_splits)

lemma str_bytes_of_chars: "list_all scalar cs \<Longrightarrow> str_bytes (of_chars cs) = encode_utf8 cs"
proof -
  assume "list_all scalar cs"
  then have "\<forall>b \<in> set (encode_utf8 cs). b < 256"
    by (induction cs) (auto dest: encode_cp_bytes)
  then show ?thesis
    by (auto simp: str_bytes_def of_chars_def map_idI)
qed

lemma chars_of_chars: "list_all scalar cs \<Longrightarrow> chars (of_chars cs) = cs"
  by (simp add: chars_def str_bytes_of_chars lossy_chars_valid decode_encode)

lemma is_str_of_chars: "list_all scalar cs \<Longrightarrow> is_str (of_chars cs)"
  by (simp add: is_str_def str_bytes_of_chars decode_encode)

lemma scalar_chars: "list_all scalar (chars s)"
  by (simp add: chars_def lossy_chars_scalar)

lemma is_str_from_utf8_lossy: "is_str (from_utf8_lossy bs)"
  by (simp add: from_utf8_lossy_def is_str_of_chars lossy_chars_scalar)

subsection \<open>ASCII strings\<close>

definition ascii :: "string \<Rightarrow> bool" where
  "ascii s \<longleftrightarrow> list_all (\<lambda>c. (of_char c :: nat) < 128) s"

lemma ascii_simps [simp]:
  "ascii []" "ascii (c # s) \<longleftrightarrow> (of_char c :: nat) < 128 \<and> ascii s"
  "ascii (s @ t) \<longleftrightarrow> ascii s \<and> ascii t"
  by (auto simp: ascii_def)

lemma ascii_show_nat [simp]: "ascii (show_nat n)"
  using show_nat_digits [of _ n] by (fastforce simp: ascii_def list_all_iff is_ascii_digit_def)

lemma ascii_bytes: "ascii s \<Longrightarrow> str_bytes s = encode_utf8 (str_bytes s) \<and> list_all scalar (str_bytes s)"
  by (induction s) (auto simp: str_bytes_def encode_cp_1)

lemma ascii_is_str: "ascii s \<Longrightarrow> is_str s"
  using ascii_bytes [of s] decode_encode by (metis is_str_def option.distinct(1))

lemma encode_utf8_append [simp]: "encode_utf8 (xs @ ys) = encode_utf8 xs @ encode_utf8 ys"
  by (simp add: encode_utf8_def)

lemma of_chars_append: "of_chars (xs @ ys) = of_chars xs @ of_chars ys"
  by (simp add: of_chars_def)

lemma is_str_iff: "is_str s \<longleftrightarrow> (\<exists>cs. list_all scalar cs \<and> s = of_chars cs)"
  using of_chars_chars scalar_chars is_str_of_chars by metis

lemma is_str_append: "is_str s \<Longrightarrow> is_str t \<Longrightarrow> is_str (s @ t)"
  unfolding is_str_iff by (metis list_all_append of_chars_append)

lemma is_str_Nil: "is_str []"
  by (auto simp: is_str_iff of_chars_def intro!: exI [of _ "[]"])

lemma is_str_concat: "list_all is_str ss \<Longrightarrow> is_str (concat ss)"
  by (induction ss) (simp_all add: is_str_Nil is_str_append)

text \<open>A string is valid UTF-8 exactly when the rest behind an ASCII prefix is.\<close>

lemma is_str_ascii_prefix [simp]:
  "is_str []" "(of_char c :: nat) < 128 \<Longrightarrow> is_str (c # s) \<longleftrightarrow> is_str s"
  by (simp_all add: is_str_Nil) (simp add: is_str_def str_bytes_def decode_utf8.simps [of "_ # _"]
    next_char.simps(2))

lemma chars_ascii: "ascii s \<Longrightarrow> chars s = str_bytes s"
  using ascii_bytes [of s] decode_encode lossy_chars_valid by (metis chars_def)

lemma chars_append_ascii:
  assumes "ascii s"
  shows "chars (s @ t) = str_bytes s @ chars t"
  using assms
proof (induction s)
  case Nil
  then show ?case by (simp add: str_bytes_def)
next
  case (Cons c s)
  then show ?case
    by (simp add: chars_def str_bytes_def next_char.simps(2)
        lossy_chars.simps [of "of_char c # _"])
qed

section \<open>Trimming and character boundaries\<close>

text \<open>Unicode \<open>White_Space\<close>, what \<open>char::is_whitespace\<close> tests.\<close>

definition is_whitespace :: "nat \<Rightarrow> bool" where
  "is_whitespace c \<longleftrightarrow>
     (9 \<le> c \<and> c \<le> 13) \<or> c = 32 \<or> c = 0x85 \<or> c = 0xA0 \<or> c = 0x1680
     \<or> (0x2000 \<le> c \<and> c \<le> 0x200A) \<or> c = 0x2028 \<or> c = 0x2029 \<or> c = 0x202F \<or> c = 0x205F
     \<or> c = 0x3000"

definition trim_list :: "('a \<Rightarrow> bool) \<Rightarrow> 'a list \<Rightarrow> 'a list" where
  "trim_list p xs = rev (dropWhile p (rev (dropWhile p xs)))"

definition trim :: "string \<Rightarrow> string" where
  "trim s = of_chars (trim_list is_whitespace (chars s))"

lemma trim_list_id: "xs \<noteq> [] \<Longrightarrow> \<not> p (hd xs) \<Longrightarrow> \<not> p (last xs) \<Longrightarrow> trim_list p xs = xs"
  by (simp add: trim_list_def dropWhile_eq_self_iff [THEN iffD2] hd_rev)

lemma dropWhile_drop_prefix: "list_all p ys \<Longrightarrow> dropWhile p (ys @ xs) = dropWhile p xs"
  by (induction ys) auto

lemma trim_list_drop_prefix: "list_all p ys \<Longrightarrow> trim_list p (ys @ xs) = trim_list p xs"
  by (simp add: trim_list_def dropWhile_drop_prefix)

lemma trim_list_drop_suffix: "list_all p ys \<Longrightarrow> trim_list p (xs @ ys) = trim_list p xs"
proof -
  assume *: "list_all p ys"
  show ?thesis
  proof (cases "dropWhile p xs = []")
    case True
    then have "dropWhile p (xs @ ys) = []"
      using * by (auto simp: list_all_iff dropWhile_eq_Nil_conv)
    with True show ?thesis unfolding trim_list_def by (simp only:)
  next
    case False
    then have "dropWhile p (xs @ ys) = dropWhile p xs @ ys"
      by (auto simp: dropWhile_append dropWhile_eq_Nil_conv)
    then show ?thesis using * by (simp add: trim_list_def dropWhile_drop_prefix)
  qed
qed

lemma trim_list_all: "list_all p xs \<Longrightarrow> trim_list p xs = []"
  using trim_list_drop_prefix [of p xs "[]"] by (simp add: trim_list_def)

text \<open>\<open>is_char_boundary(i)\<close>: the two ends, and every byte that is not a continuation
  byte. Slicing \<open>&s[..i]\<close> panics anywhere else.\<close>

definition is_char_boundary :: "string \<Rightarrow> nat \<Rightarrow> bool" where
  "is_char_boundary s i \<longleftrightarrow>
     i = 0 \<or> i = length s \<or> (i < length s \<and> \<not> cont (of_char (s ! i)))"

end
