(* ===== verification/Protocol.thy ===== *)
theory Protocol
  imports Utf8
begin

unbundle bit_operations_syntax

text \<open>
  The wire protocol, \<open>zo-tunnel-protocol/src/lib.rs\<close>: constants, message types and
  payloads, \<open>Message\<close> with its encoding and decoding, and the framed writer and reader.

  \<open>serde_json\<close> is a parameter, the record \<open>codec\<close>: \<open>to_vec\<close> and \<open>from_slice\<close>
  of the four payload structs, \<open>None\<close> for an error. The reader is the bytes that will
  arrive before the end of the stream; the writer records what it has written and accepts
  \<open>capacity\<close> bytes before it fails.
\<close>

section \<open>Constants\<close>

definition PROTOCOL_VERSION :: u8 where "PROTOCOL_VERSION = 1"
definition MAX_PAYLOAD_SIZE :: u32 where "MAX_PAYLOAD_SIZE = 16 * 1024 * 1024"
definition DEFAULT_CONTROL_PORT :: u16 where "DEFAULT_CONTROL_PORT = 6200"
definition DEFAULT_PUBLIC_PORT :: u16 where "DEFAULT_PUBLIC_PORT = 6210"
definition HEARTBEAT_INTERVAL_SECS :: nat where "HEARTBEAT_INTERVAL_SECS = 15"
definition HEARTBEAT_TIMEOUT_SECS :: nat where "HEARTBEAT_TIMEOUT_SECS = 90"
definition TAKEOVER_AFTER_MISSED_HEARTBEATS :: u32 where "TAKEOVER_AFTER_MISSED_HEARTBEATS = 2"
definition SESSION_STALE_SECS :: nat where "SESSION_STALE_SECS = HEARTBEAT_TIMEOUT_SECS"
definition STREAM_TYPE_PROXY :: u8 where "STREAM_TYPE_PROXY = 0x00"
definition STREAM_TYPE_HEARTBEAT :: u8 where "STREAM_TYPE_HEARTBEAT = 0x01"

text \<open>The keepalive settings both programs put on the control connection, \<open>socket2::TcpKeepalive\<close>:
  seconds before the first probe and between probes, and on Linux the number of probes.\<close>

record tcp_keepalive =
  ka_time :: nat
  ka_interval :: nat
  ka_retries :: "nat option"

lemma unat_MAX_PAYLOAD_SIZE [simp]: "unat MAX_PAYLOAD_SIZE = 16777216"
  by (simp add: MAX_PAYLOAD_SIZE_def)

section \<open>Message types\<close>

datatype message_type =
  MT_AuthReq | MT_AuthRes | MT_NewConn | MT_Data | MT_Ping | MT_Pong | MT_Close | MT_Error
  | MT_AcceptConn

fun message_type_byte :: "message_type \<Rightarrow> u8" where
  "message_type_byte MT_AuthReq = 0x01"
| "message_type_byte MT_AuthRes = 0x02"
| "message_type_byte MT_NewConn = 0x03"
| "message_type_byte MT_Data = 0x04"
| "message_type_byte MT_Ping = 0x05"
| "message_type_byte MT_Pong = 0x06"
| "message_type_byte MT_Close = 0x07"
| "message_type_byte MT_Error = 0x08"
| "message_type_byte MT_AcceptConn = 0x09"

datatype proto_error =
  UnknownMessageType u8
| EncodeFailed message_type
| DecodeFailed message_type
| DataNotDecodable
| PayloadTooLarge u32
| VersionMismatch u8
| WriteFailed
| FlushFailed
| ReadHeaderFailed
| ReadPayloadFailed

definition message_type_try_from :: "u8 \<Rightarrow> (proto_error, message_type) res" where
  "message_type_try_from v =
     (if v = 0x01 then Inr MT_AuthReq
      else if v = 0x02 then Inr MT_AuthRes
      else if v = 0x03 then Inr MT_NewConn
      else if v = 0x04 then Inr MT_Data
      else if v = 0x05 then Inr MT_Ping
      else if v = 0x06 then Inr MT_Pong
      else if v = 0x07 then Inr MT_Close
      else if v = 0x08 then Inr MT_Error
      else if v = 0x09 then Inr MT_AcceptConn
      else Inl (UnknownMessageType v))"

section \<open>Payloads and messages\<close>

record auth_req =
  ar_client_id :: string
  ar_token :: string
  ar_version :: "string option"

definition supports_heartbeat :: "auth_req \<Rightarrow> bool" where
  "supports_heartbeat a \<longleftrightarrow> ar_version a \<noteq> None"

record auth_res =
  as_success :: bool
  as_message :: string
  as_public_port :: "u16 option"
  as_assigned_route :: "string option"

record new_conn =
  nc_conn_id :: "128 word"

record accept_conn =
  ac_conn_id :: "128 word"
  ac_client_id :: string

datatype message =
  AuthReq auth_req
| AuthRes auth_res
| NewConn new_conn
| AcceptConn accept_conn
| Ping
| Pong
| Close
| ErrorMsg string

fun msg_type :: "message \<Rightarrow> message_type" where
  "msg_type (AuthReq _) = MT_AuthReq"
| "msg_type (AuthRes _) = MT_AuthRes"
| "msg_type (NewConn _) = MT_NewConn"
| "msg_type (AcceptConn _) = MT_AcceptConn"
| "msg_type Ping = MT_Ping"
| "msg_type Pong = MT_Pong"
| "msg_type Close = MT_Close"
| "msg_type (ErrorMsg _) = MT_Error"

record codec =
  to_vec_auth_req :: "auth_req \<Rightarrow> bytes option"
  from_slice_auth_req :: "bytes \<Rightarrow> auth_req option"
  to_vec_auth_res :: "auth_res \<Rightarrow> bytes option"
  from_slice_auth_res :: "bytes \<Rightarrow> auth_res option"
  to_vec_new_conn :: "new_conn \<Rightarrow> bytes option"
  from_slice_new_conn :: "bytes \<Rightarrow> new_conn option"
  to_vec_accept_conn :: "accept_conn \<Rightarrow> bytes option"
  from_slice_accept_conn :: "bytes \<Rightarrow> accept_conn option"

definition or_error :: "'e \<Rightarrow> 'a option \<Rightarrow> ('e, 'a) res" where
  "or_error e x = (case x of None \<Rightarrow> Inl e | Some y \<Rightarrow> Inr y)"

lemma or_error_simps [simp]:
  "or_error e None = Inl e" "or_error e (Some y) = Inr y"
  "or_error e x = Inr y \<longleftrightarrow> x = Some y" "or_error e x = Inl e' \<longleftrightarrow> x = None \<and> e' = e"
  by (auto simp: or_error_def split: option.splits)

fun encode_payload :: "codec \<Rightarrow> message \<Rightarrow> (proto_error, bytes) res" where
  "encode_payload c (AuthReq p) = or_error (EncodeFailed MT_AuthReq) (to_vec_auth_req c p)"
| "encode_payload c (AuthRes p) = or_error (EncodeFailed MT_AuthRes) (to_vec_auth_res c p)"
| "encode_payload c (NewConn p) = or_error (EncodeFailed MT_NewConn) (to_vec_new_conn c p)"
| "encode_payload c (AcceptConn p) = or_error (EncodeFailed MT_AcceptConn) (to_vec_accept_conn c p)"
| "encode_payload c (ErrorMsg msg) = Inr (as_bytes msg)"
| "encode_payload c Ping = Inr []"
| "encode_payload c Pong = Inr []"
| "encode_payload c Close = Inr []"

fun decode_message :: "codec \<Rightarrow> message_type \<Rightarrow> bytes \<Rightarrow> (proto_error, message) res" where
  "decode_message c MT_AuthReq p =
     bind_res (or_error (DecodeFailed MT_AuthReq) (from_slice_auth_req c p)) (\<lambda>x. Inr (AuthReq x))"
| "decode_message c MT_AuthRes p =
     bind_res (or_error (DecodeFailed MT_AuthRes) (from_slice_auth_res c p)) (\<lambda>x. Inr (AuthRes x))"
| "decode_message c MT_NewConn p =
     bind_res (or_error (DecodeFailed MT_NewConn) (from_slice_new_conn c p)) (\<lambda>x. Inr (NewConn x))"
| "decode_message c MT_AcceptConn p =
     bind_res (or_error (DecodeFailed MT_AcceptConn) (from_slice_accept_conn c p))
       (\<lambda>x. Inr (AcceptConn x))"
| "decode_message c MT_Error p = Inr (ErrorMsg (from_utf8_lossy p))"
| "decode_message c MT_Ping p = Inr Ping"
| "decode_message c MT_Pong p = Inr Pong"
| "decode_message c MT_Close p = Inr Close"
| "decode_message c MT_Data p = Inl DataNotDecodable"

section \<open>Writer and reader\<close>

record writer =
  written :: bytes
  capacity :: "nat option"
  flush_ok :: bool

definition write_all :: "writer \<Rightarrow> bytes \<Rightarrow> bool \<times> writer" where
  "write_all w buf =
     (case capacity w of
        None \<Rightarrow> (True, w\<lparr>written := written w @ buf\<rparr>)
      | Some n \<Rightarrow>
          (n \<ge> length (written w) + length buf,
           w\<lparr>written := written w @ take (n - length (written w)) buf\<rparr>))"

definition put_u32 :: "u32 \<Rightarrow> bytes" where
  "put_u32 w = [ucast (drop_bit 24 w), ucast (drop_bit 16 w), ucast (drop_bit 8 w), ucast w]"

definition get_u32 :: "u8 \<Rightarrow> u8 \<Rightarrow> u8 \<Rightarrow> u8 \<Rightarrow> u32" where
  "get_u32 a b c d =
     push_bit 24 (ucast a) OR push_bit 16 (ucast b) OR push_bit 8 (ucast c) OR ucast d"

lemma length_put_u32 [simp]: "length (put_u32 w) = 4"
  by (simp add: put_u32_def)

lemma get_put_u32:
  "get_u32 (ucast (drop_bit 24 w)) (ucast (drop_bit 16 w)) (ucast (drop_bit 8 w)) (ucast w) = w"
proof (rule bit_word_eqI)
  fix n :: nat
  assume "n < LENGTH(32)"
  then consider "n < 8" | "8 \<le> n" "n < 16" | "16 \<le> n" "n < 24" | "24 \<le> n" "n < 32"
    by fastforce
  then show "bit (get_u32 (ucast (drop_bit 24 w)) (ucast (drop_bit 16 w))
      (ucast (drop_bit 8 w)) (ucast w)) n = bit w n"
    by cases (auto simp: get_u32_def bit_simps)
qed

text \<open>
  \<open>write_message\<close>: the length is cast \<open>as u32\<close>, which drops the high bits, and only
  then compared with the limit.
\<close>

definition write_message :: "codec \<Rightarrow> writer \<Rightarrow> message \<Rightarrow> (proto_error, unit) res \<times> writer" where
  "write_message c w msg =
     (case encode_payload c msg of
        Inl e \<Rightarrow> (Inl e, w)
      | Inr payload \<Rightarrow>
          let payload_len = (word_of_nat (length payload) :: u32) in
          if payload_len > MAX_PAYLOAD_SIZE then (Inl (PayloadTooLarge payload_len), w)
          else
            let buf = PROTOCOL_VERSION # message_type_byte (msg_type msg)
                        # put_u32 payload_len @ payload;
                (ok, w') = write_all w buf
            in if \<not> ok then (Inl WriteFailed, w')
               else if \<not> flush_ok w' then (Inl FlushFailed, w')
               else (Inr (), w'))"

text \<open>\<open>read_exact\<close> of \<open>n\<close> bytes; at a premature end of stream the bytes are gone.\<close>

definition read_exact :: "nat \<Rightarrow> bytes \<Rightarrow> bytes option \<times> bytes" where
  "read_exact n bs = (if n \<le> length bs then (Some (take n bs), drop n bs) else (None, []))"

definition read_message :: "codec \<Rightarrow> bytes \<Rightarrow> (proto_error, message) res \<times> bytes" where
  "read_message c bs =
     (case read_exact 6 bs of
        (Some [version, msg_type_byte, l3, l2, l1, l0], bs1) \<Rightarrow>
          let payload_len = get_u32 l3 l2 l1 l0 in
          if version \<noteq> PROTOCOL_VERSION then (Inl (VersionMismatch version), bs1)
          else
            (case message_type_try_from msg_type_byte of
               Inl e \<Rightarrow> (Inl e, bs1)
             | Inr mt \<Rightarrow>
                 if payload_len > MAX_PAYLOAD_SIZE then (Inl (PayloadTooLarge payload_len), bs1)
                 else if payload_len > 0 then
                   (case read_exact (unat payload_len) bs1 of
                      (None, bs2) \<Rightarrow> (Inl ReadPayloadFailed, bs2)
                    | (Some payload, bs2) \<Rightarrow> (decode_message c mt payload, bs2))
                 else (decode_message c mt [], bs1))
      | (_, bs1) \<Rightarrow> (Inl ReadHeaderFailed, bs1))"

section \<open>Lemmas\<close>

definition frame :: "message_type \<Rightarrow> bytes \<Rightarrow> bytes" where
  "frame mt payload =
     PROTOCOL_VERSION # message_type_byte mt # put_u32 (word_of_nat (length payload)) @ payload"

lemma length_frame [simp]: "length (frame mt p) = 6 + length p"
  by (simp add: frame_def)

lemma message_type_try_from_byte [simp]:
  "message_type_try_from (message_type_byte t) = Inr t"
  by (cases t) (simp_all add: message_type_try_from_def)

lemma message_type_try_from_Inr:
  "message_type_try_from v = Inr t \<Longrightarrow> v = message_type_byte t"
  by (auto simp: message_type_try_from_def split: if_splits)

lemma unat_payload_len:
  "n \<le> unat MAX_PAYLOAD_SIZE \<Longrightarrow> unat (word_of_nat n :: u32) = n"
  by (simp add: unat_of_nat take_bit_nat_eq_self)

lemma payload_len_ok:
  "n < 2 ^ 32 \<Longrightarrow> (word_of_nat n :: u32) > MAX_PAYLOAD_SIZE \<longleftrightarrow> n > unat MAX_PAYLOAD_SIZE"
  by (simp add: word_less_nat_alt unat_of_nat take_bit_nat_eq_self)

lemma write_message_ok:
  assumes "write_message c w m = (Inr (), w')"
  obtains p where "encode_payload c m = Inr p"
    "(word_of_nat (length p) :: u32) \<le> MAX_PAYLOAD_SIZE"
    "written w' = written w @ frame (msg_type m) p"
proof (cases "encode_payload c m")
  case (Inl e)
  with assms show thesis by (simp add: write_message_def)
next
  case (Inr p)
  with assms show thesis
    by (intro that [of p])
       (auto simp: write_message_def write_all_def frame_def Let_def not_less
          split: if_splits option.splits)
qed

lemma read_exact_6:
  assumes "read_exact 6 bs = (Some hdr, r)"
  obtains v t a b c d where "hdr = [v, t, a, b, c, d]" "bs = [v, t, a, b, c, d] @ r"
proof -
  have l: "6 \<le> length bs" "hdr = take 6 bs" "r = drop 6 bs"
    using assms by (auto simp: read_exact_def split: if_splits)
  then obtain v t a b c d where "take 6 bs = [v, t, a, b, c, d]"
    by (auto simp: eval_nat_numeral take_Suc_conv_app_nth Suc_le_length_iff)
  with l that show thesis by (metis append_take_drop_id)
qed

lemma read_exact_append [simp]: "length p = n \<Longrightarrow> read_exact n (p @ r) = (Some p, r)"
  by (simp add: read_exact_def)

lemma read_frame_header:
  "read_exact 6 (frame mt p @ r) =
     (Some (PROTOCOL_VERSION # message_type_byte mt # put_u32 (word_of_nat (length p))), p @ r)"
  by (simp add: frame_def read_exact_def)

lemma read_message_frame:
  assumes "length p \<le> unat MAX_PAYLOAD_SIZE"
  shows "read_message c (frame mt p @ r) = (decode_message c mt p, r)"
proof -
  let ?n = "word_of_nat (length p) :: u32"
  have n: "unat ?n = length p" using assms by (rule unat_payload_len)
  have le: "\<not> ?n > MAX_PAYLOAD_SIZE" using assms n by (simp add: word_less_nat_alt)
  have pos: "?n > 0 \<longleftrightarrow> p \<noteq> []" using n by (simp add: word_less_nat_alt)
  show ?thesis
    unfolding read_message_def read_frame_header put_u32_def
    using n le pos by (auto simp: Let_def get_put_u32)
qed

text \<open>The codec reads back what it wrote, on one message.\<close>

fun codec_roundtrips :: "codec \<Rightarrow> message \<Rightarrow> bool" where
  "codec_roundtrips c (AuthReq p) = (\<forall>b. to_vec_auth_req c p = Some b \<longrightarrow> from_slice_auth_req c b = Some p)"
| "codec_roundtrips c (AuthRes p) = (\<forall>b. to_vec_auth_res c p = Some b \<longrightarrow> from_slice_auth_res c b = Some p)"
| "codec_roundtrips c (NewConn p) = (\<forall>b. to_vec_new_conn c p = Some b \<longrightarrow> from_slice_new_conn c b = Some p)"
| "codec_roundtrips c (AcceptConn p) =
     (\<forall>b. to_vec_accept_conn c p = Some b \<longrightarrow> from_slice_accept_conn c b = Some p)"
| "codec_roundtrips c (ErrorMsg s) = is_str s"
| "codec_roundtrips c _ = True"

lemma decode_encode_payload:
  "codec_roundtrips c m \<Longrightarrow> encode_payload c m = Inr p \<Longrightarrow> decode_message c (msg_type m) p = Inr m"
  by (cases m) (auto simp: from_utf8_lossy_as_bytes)

lemma put_get_u32:
  "put_u32 (get_u32 a b c d) = [a, b, c, d]"
proof -
  have "ucast (drop_bit 24 (get_u32 a b c d)) = a" "ucast (drop_bit 16 (get_u32 a b c d)) = b"
    "ucast (drop_bit 8 (get_u32 a b c d)) = c" "ucast (get_u32 a b c d) = d"
    by (rule bit_word_eqI; auto simp: get_u32_def bit_simps dest: bit_imp_le_length)+
  then show ?thesis by (simp add: put_u32_def)
qed

lemma read_message_Inr:
  assumes "read_message c bs = (Inr m, r)"
  obtains mt p where "bs = frame mt p @ r" "length p \<le> unat MAX_PAYLOAD_SIZE"
    "decode_message c mt p = Inr m"
proof -
  obtain hdr r1 where h: "read_exact 6 bs = (Some hdr, r1)"
    using assms by (auto simp: read_message_def read_exact_def split: if_splits)
  then obtain v t a b e d where hdr: "hdr = [v, t, a, b, e, d]" "bs = [v, t, a, b, e, d] @ r1"
    by (rule read_exact_6)
  define n where "n = get_u32 a b e d"
  from assms h hdr(1) obtain mt where v: "v = PROTOCOL_VERSION"
    and mt: "message_type_try_from t = Inr mt" and le: "\<not> n > MAX_PAYLOAD_SIZE"
    by (auto simp: read_message_def n_def [symmetric] Let_def split: if_splits sum.splits)
  have t: "t = message_type_byte mt" using mt by (rule message_type_try_from_Inr)
  have n: "put_u32 n = [a, b, e, d]" by (simp add: n_def put_get_u32)
  have "\<exists>p. length p = unat n \<and> r1 = p @ r \<and> decode_message c mt p = Inr m"
  proof (cases "n > 0")
    case True
    with assms h hdr(1) v mt le have "unat n \<le> length r1"
      and "decode_message c mt (take (unat n) r1) = Inr m" and "r = drop (unat n) r1"
      by (auto simp: read_message_def n_def [symmetric] Let_def read_exact_def split: if_splits)
    then show ?thesis by (intro exI [of _ "take (unat n) r1"]) simp
  next
    case False
    with assms h hdr(1) v mt le show ?thesis
      by (auto simp: read_message_def n_def [symmetric] Let_def word_less_nat_alt)
  qed
  then obtain p where p: "length p = unat n" "r1 = p @ r" "decode_message c mt p = Inr m"
    by blast
  have "bs = frame mt p @ r"
    using hdr(2) v t n p by (simp add: frame_def)
  moreover have "length p \<le> unat MAX_PAYLOAD_SIZE"
    using le p(1) by (simp add: word_less_nat_alt)
  ultimately show thesis using p(3) that by blast
qed

section \<open>Properties\<close>

lemma read_exact_short: "length bs < n \<Longrightarrow> read_exact n bs = (None, [])"
  by (simp add: read_exact_def)

lemma read_message_short_header: "length bs < 6 \<Longrightarrow> read_message c bs = (Inl ReadHeaderFailed, [])"
  by (simp add: read_message_def read_exact_short)

lemma read_message_short_payload:
  assumes "length p \<le> unat MAX_PAYLOAD_SIZE" "k < length p"
  shows "fst (read_message c (take (6 + k) (frame mt p))) = Inl ReadPayloadFailed"
proof -
  let ?n = "word_of_nat (length p) :: u32"
  have n: "unat ?n = length p" using assms(1) by (rule unat_payload_len)
  have le: "\<not> ?n > MAX_PAYLOAD_SIZE" using assms n by (simp add: word_less_nat_alt)
  have pos: "?n > 0" using n assms(2) by (cases p) (simp_all add: word_less_nat_alt)
  have "take (6 + k) (frame mt p) =
      [PROTOCOL_VERSION, message_type_byte mt] @ put_u32 ?n @ take k p"
    by (simp add: frame_def put_u32_def eval_nat_numeral)
  then show ?thesis
    using n le pos assms(2)
    by (simp add: read_message_def read_exact_def put_u32_def get_put_u32 Let_def)
qed

lemma written_is_read:
  assumes "write_message c w m = (Inr (), w')" "codec_roundtrips c m"
    "\<And>p. encode_payload c m = Inr p \<Longrightarrow> length p < 2 ^ 32"
  obtains f where "written w' = written w @ f" "\<forall>r. read_message c (f @ r) = (Inr m, r)"
proof -
  from assms(1) obtain p where p: "encode_payload c m = Inr p"
    "(word_of_nat (length p) :: u32) \<le> MAX_PAYLOAD_SIZE" "written w' = written w @ frame (msg_type m) p"
    by (rule write_message_ok)
  have "length p \<le> unat MAX_PAYLOAD_SIZE"
    using payload_len_ok [OF assms(3) [OF p(1)]] p(2) by (simp flip: not_less)
  then have "read_message c (frame (msg_type m) p @ r) = (Inr m, r)" for r
    using decode_encode_payload [OF assms(2) p(1)] by (simp add: read_message_frame)
  with p(3) show thesis using that by blast
qed

text \<open>C2: Whatever \<open>write_message\<close> puts on a connection, \<open>read_message\<close> reads back as the
  same message, and it consumes exactly the frame: the bytes behind it (where the yamux session
  starts) are untouched. The payload is shorter than 4 GiB, and the codec reads back what it wrote
  for this message.\<close>

theorem write_read_roundtrip:
  assumes "write_message c w m = (Inr (), w')"
    and "codec_roundtrips c m"
    and "\<And>p. encode_payload c m = Inr p \<Longrightarrow> length p < 2 ^ 32"
  shows "\<exists>f. written w' = written w @ f \<and> (\<forall>r. read_message c (f @ r) = (Inr m, r))"
  using written_is_read [OF assms] by metis

definition demo_codec :: codec where
  "demo_codec = \<lparr>
     to_vec_auth_req = (\<lambda>a. Some (as_bytes (ar_client_id a))),
     from_slice_auth_req = (\<lambda>b. Some \<lparr>ar_client_id = from_utf8_lossy b, ar_token = ''t'',
                                        ar_version = Some ''0.0.5''\<rparr>),
     to_vec_auth_res = (\<lambda>a. None), from_slice_auth_res = (\<lambda>b. None),
     to_vec_new_conn = (\<lambda>a. None), from_slice_new_conn = (\<lambda>b. None),
     to_vec_accept_conn = (\<lambda>a. None), from_slice_accept_conn = (\<lambda>b. None)\<rparr>"

abbreviation demo_auth :: message where
  "demo_auth \<equiv> AuthReq \<lparr>ar_client_id = ''app'', ar_token = ''t'', ar_version = Some ''0.0.5''\<rparr>"

abbreviation fresh_writer :: writer where
  "fresh_writer \<equiv> \<lparr>written = [], capacity = None, flush_ok = True\<rparr>"

lemma demo_write: "\<exists>w'. write_message demo_codec fresh_writer demo_auth = (Inr (), w')"
  by (simp add: write_message_def demo_codec_def write_all_def MAX_PAYLOAD_SIZE_def)

lemma demo_codec_roundtrips: "codec_roundtrips demo_codec demo_auth"
  by (simp add: demo_codec_def from_utf8_lossy_as_bytes)

lemma demo_payload_short: "encode_payload demo_codec demo_auth = Inr p \<Longrightarrow> length p < 2 ^ 32"
  by (auto simp: demo_codec_def)

theorem write_read_roundtrip_witness:
  "\<exists>f. \<forall>r. read_message demo_codec (f @ r) = (Inr demo_auth, r)"
  using demo_write write_read_roundtrip [OF _ demo_codec_roundtrips demo_payload_short] by blast

text \<open>C39: A frame that is cut off anywhere, even after the last header byte, is never read as a
  message: \<open>read_message\<close> returns an error for every proper prefix of a frame.\<close>

theorem read_message_truncated:
  assumes "length p \<le> unat MAX_PAYLOAD_SIZE" and "k < length (frame mt p)"
  shows "\<exists>e. fst (read_message c (take k (frame mt p))) = Inl e"
proof (cases "k < 6")
  case True
  then show ?thesis using assms by (simp add: read_message_short_header)
next
  case False
  then show ?thesis
    using read_message_short_payload [OF assms(1), of "k - 6"] assms(2) by auto
qed

theorem read_message_truncated_witness:
  "\<exists>e. fst (read_message demo_codec (take 8 (frame MT_Error [104, 105, 33]))) = Inl e"
  by (rule read_message_truncated) simp_all

text \<open>\<open>read_message\<close> accepts only well-formed frames of the current version, whose payload
  is at most 16 MiB: what it consumed is exactly such a frame, and the message is the decoding of its
  payload. The buffer it allocates is bounded accordingly.\<close>

theorem read_message_accepts:
  assumes "read_message c bs = (Inr m, r)"
  shows "\<exists>mt p. bs = frame mt p @ r \<and> length p \<le> 16 * 1024 * 1024 \<and> mt \<noteq> MT_Data
           \<and> decode_message c mt p = Inr m"
proof -
  from assms obtain mt p where "bs = frame mt p @ r" "length p \<le> unat MAX_PAYLOAD_SIZE"
    "decode_message c mt p = Inr m"
    by (rule read_message_Inr)
  then show ?thesis by (intro exI [of _ mt] exI [of _ p]) auto
qed

lemma demo_read: "read_message demo_codec [1, 5, 0, 0, 0, 0, 9] = (Inr Ping, [9])"
  by (simp add: read_message_def read_exact_def get_u32_def message_type_try_from_def
      PROTOCOL_VERSION_def MAX_PAYLOAD_SIZE_def)

theorem read_message_accepts_witness:
  "\<exists>mt p. [1, 5, 0, 0, 0, 0, 9] = frame mt p @ [9] \<and> mt \<noteq> MT_Data"
  using read_message_accepts [OF demo_read] by blast

text \<open>For payloads below 4 GiB the writer enforces the limit exactly: more than 16 MiB is
  refused with an error and nothing is written, and anything else is written as one frame.\<close>

theorem write_message_limit:
  assumes "encode_payload c m = Inr p" and "length p < 2 ^ 32"
    and "capacity w = None" and "flush_ok w"
  shows "write_message c w m =
     (if length p > 16 * 1024 * 1024 then (Inl (PayloadTooLarge (word_of_nat (length p))), w)
      else (Inr (), w\<lparr>written := written w @ frame (msg_type m) p\<rparr>))"
  using assms payload_len_ok [of "length p"]
  by (auto simp: write_message_def write_all_def frame_def)

theorem write_message_limit_witness:
  "write_message demo_codec fresh_writer (ErrorMsg ''no'') =
     (Inr (), fresh_writer\<lparr>written := frame MT_Error [110, 111]\<rparr>)"
  using write_message_limit [of demo_codec "ErrorMsg ''no''" "[110, 111]" fresh_writer]
  by (simp add: as_bytes_def)

text \<open>The cast of the payload length to \<open>u32\<close> happens before the limit check, so the
  check can be passed by wrapping: a payload of \<open>2^32 + k\<close> bytes with \<open>k\<close> below the limit
  is written with the length field \<open>k\<close>. The reader takes its first \<open>k\<close> bytes for the
  message and the other \<open>2^32\<close> for whatever follows.\<close>

theorem write_message_wraps:
  assumes "encode_payload c m = Inr p" and "length p = 2 ^ 32 + k" and "k \<le> unat MAX_PAYLOAD_SIZE"
    and "capacity w = None" and "flush_ok w"
  shows "\<exists>f. write_message c w m = (Inr (), w\<lparr>written := written w @ f\<rparr>)
     \<and> read_message c f = (decode_message c (msg_type m) (take k p), drop k p)"
proof -
  have k: "(word_of_nat (length p) :: u32) = word_of_nat k"
    using assms(2) by (simp add: word_eq_iff_unsigned unat_of_nat flip: take_bit_eq_mod)
  have le: "\<not> (word_of_nat k :: u32) > MAX_PAYLOAD_SIZE"
    using assms(3) unat_payload_len [of k] by (simp add: word_less_nat_alt)
  have f: "frame (msg_type m) p = frame (msg_type m) (take k p) @ drop k p"
    unfolding frame_def k length_take using assms(2) by (simp add: min_absorb2)
  have "write_message c w m = (Inr (), w\<lparr>written := written w @ frame (msg_type m) p\<rparr>)"
    using assms(1,4,5) le by (simp add: write_message_def write_all_def frame_def k)
  moreover have "read_message c (frame (msg_type m) p)
      = (decode_message c (msg_type m) (take k p), drop k p)"
    unfolding f using assms(2,3) by (intro read_message_frame) simp
  ultimately show ?thesis by blast
qed

theorem write_message_wraps_witness:
  "\<exists>f. write_message demo_codec fresh_writer (ErrorMsg (replicate (2 ^ 32 + 3) CHR ''a''))
        = (Inr (), fresh_writer\<lparr>written := f\<rparr>)"
  using write_message_wraps [of demo_codec "ErrorMsg (replicate (2 ^ 32 + 3) CHR ''a'')"
      "as_bytes (replicate (2 ^ 32 + 3) CHR ''a'')" 3 fresh_writer]
  by auto

end
