(* ===== verification/Atomic_Map.thy ===== *)
theory Atomic_Map
  imports Prelude
begin

text \<open>
  The interface of the concurrent map (\<open>DashMap\<close>) that the registry, the rate limiter and the
  session store keep their state in. Each operation of the map is atomic (it holds the shard lock),
  so it is one state transformer; \<open>entries\<close> is the content in the (unspecified) iteration
  order.

  The locale states what the clients rely on; its lemmas are proved once, and the association list
  that the model uses is an interpretation.
\<close>

section \<open>The contract\<close>

locale atomic_map =
  fixes empty :: "'m"
    and get :: "'m \<Rightarrow> 'k \<Rightarrow> 'v option"
    and put :: "'k \<Rightarrow> 'v \<Rightarrow> 'm \<Rightarrow> 'm"
    and remove_if :: "('v \<Rightarrow> bool) \<Rightarrow> 'k \<Rightarrow> 'm \<Rightarrow> 'm"
    and entries :: "'m \<Rightarrow> ('k \<times> 'v) list"
    and invar :: "'m \<Rightarrow> bool"
  assumes invar_empty: "invar empty"
    and invar_put: "invar m \<Longrightarrow> invar (put k v m)"
    and invar_remove_if: "invar m \<Longrightarrow> invar (remove_if p k m)"
    and get_empty: "get empty k = None"
    and get_put: "invar m \<Longrightarrow> get (put k v m) k' = (if k' = k then Some v else get m k')"
    and get_remove_if: "invar m \<Longrightarrow>
      get (remove_if p k m) k' =
        (if k' = k \<and> (\<exists>v. get m k = Some v \<and> p v) then None else get m k')"
    and entries_get: "invar m \<Longrightarrow> map_of (entries m) = get m"
    and entries_distinct: "invar m \<Longrightarrow> distinct (map fst (entries m))"
begin

lemma get_put_same: "invar m \<Longrightarrow> get (put k v m) k = Some v"
  by (simp add: get_put)

lemma get_put_other: "invar m \<Longrightarrow> k' \<noteq> k \<Longrightarrow> get (put k v m) k' = get m k'"
  by (simp add: get_put)

lemma get_remove_other: "invar m \<Longrightarrow> k' \<noteq> k \<Longrightarrow> get (remove_if p k m) k' = get m k'"
  by (simp add: get_remove_if)

lemma get_remove_kept:
  "invar m \<Longrightarrow> (\<And>v. get m k = Some v \<Longrightarrow> \<not> p v) \<Longrightarrow> get (remove_if p k m) k' = get m k'"
  by (auto simp: get_remove_if)

lemma get_remove_gone:
  "invar m \<Longrightarrow> (\<And>v. get m k = Some v \<Longrightarrow> p v) \<Longrightarrow> get (remove_if p k m) k = None"
  by (cases "get m k") (auto simp: get_remove_if)

lemma dom_put: "invar m \<Longrightarrow> dom (get (put k v m)) = insert k (dom (get m))"
  by (auto simp: get_put split: if_splits)

lemma set_entries: "invar m \<Longrightarrow> (k, v) \<in> set (entries m) \<longleftrightarrow> get m k = Some v"
  by (metis entries_distinct entries_get map_of_eq_Some_iff)

lemma finite_dom_get: "invar m \<Longrightarrow> finite (dom (get m))"
  by (metis entries_get finite_dom_map_of)

lemma length_entries: "invar m \<Longrightarrow> length (entries m) = card (dom (get m))"
  using distinct_card [OF entries_distinct, of m] entries_get [of m, symmetric]
  by (simp add: dom_map_of_conv_image_fst)

lemma length_entries_put:
  "invar m \<Longrightarrow> length (entries (put k v m)) =
     (if get m k = None then Suc (length (entries m)) else length (entries m))"
  by (simp add: length_entries invar_put dom_put finite_dom_get card_insert_if domIff)

lemma length_entries_remove_if:
  assumes "invar m" "get m k = Some v" "p v"
  shows "Suc (length (entries (remove_if p k m))) = length (entries m)"
proof -
  have "dom (get m) = insert k (dom (get (remove_if p k m)))"
    using assms by (auto simp: get_remove_if split: if_splits)
  moreover have "k \<notin> dom (get (remove_if p k m))"
    using assms by (auto simp: get_remove_if)
  moreover have "finite (dom (get (remove_if p k m)))"
    using assms(1) by (intro finite_dom_get invar_remove_if)
  ultimately show ?thesis
    using assms(1) by (simp add: length_entries invar_remove_if)
qed

end

section \<open>The association list\<close>

type_synonym ('k, 'v) dmap = "('k \<times> 'v) list"

definition dm_empty :: "('k, 'v) dmap" where
  "dm_empty = []"

definition dm_get :: "('k, 'v) dmap \<Rightarrow> 'k \<Rightarrow> 'v option" where
  "dm_get = map_of"

definition dm_put :: "'k \<Rightarrow> 'v \<Rightarrow> ('k, 'v) dmap \<Rightarrow> ('k, 'v) dmap" where
  "dm_put = AList.update"

definition dm_remove_if :: "('v \<Rightarrow> bool) \<Rightarrow> 'k \<Rightarrow> ('k, 'v) dmap \<Rightarrow> ('k, 'v) dmap" where
  "dm_remove_if p k m = filter (\<lambda>(k', v). \<not> (k' = k \<and> p v)) m"

definition dm_remove :: "'k \<Rightarrow> ('k, 'v) dmap \<Rightarrow> ('k, 'v) dmap" where
  "dm_remove k m = dm_remove_if (\<lambda>_. True) k m"

definition dm_wf :: "('k, 'v) dmap \<Rightarrow> bool" where
  "dm_wf m \<longleftrightarrow> distinct (map fst m)"

lemma option_eqI: "(\<And>v. x = Some v \<longleftrightarrow> y = Some v) \<Longrightarrow> x = y"
  by (metis option.exhaust)

lemma map_of_dm_remove_if:
  assumes "distinct (map fst m)"
  shows "map_of (dm_remove_if p k m) k' =
    (if k' = k \<and> (\<exists>v. map_of m k = Some v \<and> p v) then None else map_of m k')"
proof -
  have d: "distinct (map fst (dm_remove_if p k m))"
    using assms by (simp add: dm_remove_if_def distinct_map_filter)
  have *: "map_of (dm_remove_if p k m) k' = Some v \<longleftrightarrow> map_of m k' = Some v \<and> \<not> (k' = k \<and> p v)" for v
    unfolding map_of_eq_Some_iff [OF d] map_of_eq_Some_iff [OF assms]
    by (auto simp: dm_remove_if_def)
  show ?thesis
    by (rule option_eqI, subst *) auto
qed

interpretation dm: atomic_map dm_empty dm_get dm_put dm_remove_if "\<lambda>m. m" dm_wf
proof unfold_locales
  fix m :: "('a, 'b) dmap" and p k k'
  assume "dm_wf m"
  then show "dm_get (dm_remove_if p k m) k' =
      (if k' = k \<and> (\<exists>v. dm_get m k = Some v \<and> p v) then None else dm_get m k')"
    unfolding dm_get_def dm_wf_def by (rule map_of_dm_remove_if)
qed (auto simp: dm_empty_def dm_get_def dm_put_def dm_remove_if_def dm_wf_def
      distinct_update update_conv distinct_map_filter)

lemmas dm_simps [simp] = dm.get_empty dm.get_put_same

lemma dm_remove_get: "dm_wf m \<Longrightarrow> dm_get (dm_remove k m) k' = (if k' = k then None else dm_get m k')"
  by (cases "dm_get m k") (auto simp: dm_remove_def dm.get_remove_if)

lemma dm_wf_intros [wf_intros, simp]:
  "dm_wf dm_empty" "dm_wf m \<Longrightarrow> dm_wf (dm_put k v m)" "dm_wf m \<Longrightarrow> dm_wf (dm_remove_if p k m)"
  "dm_wf m \<Longrightarrow> dm_wf (dm_remove k m)"
  by (simp_all add: dm.invar_empty dm.invar_put dm.invar_remove_if dm_remove_def)

end
