(* ===== verification/File_System.thy ===== *)
theory File_System
  imports Atomic_Map Utf8
begin

text \<open>
  What the sources use of \<open>std::path\<close> and \<open>std::fs\<close>: a file system is a map from absolute
  paths to contents, the existing directories, the paths where the operating system refuses a
  change, and the log of the files written, which stands for their modification times. Every
  operation that can fail returns its error.

  The locale is the contract the route files, the pid files and the installer rely on.
\<close>

datatype io_error = NotFound | PermissionDenied | InvalidData | IsADirectory | OtherIo

record fs =
  fs_files :: "(string, string) dmap"
  fs_dirs :: "string list"
  fs_denied :: "string list"
  fs_writes :: "string list"

definition fs_wf :: "fs \<Rightarrow> bool" where
  "fs_wf s \<longleftrightarrow> dm_wf (fs_files s)"

section \<open>Paths\<close>

text \<open>\<open>Path::join\<close>: an absolute argument replaces the path, otherwise a separator is added
  where there is none.\<close>

definition path_join :: "string \<Rightarrow> string \<Rightarrow> string" where
  "path_join a b =
     (if starts_with ''/'' b then b
      else if a = [] \<or> last a = CHR ''/'' then a @ b
      else a @ ''/'' @ b)"

definition parent_dir :: "string \<Rightarrow> string" where
  "parent_dir p = rev (tl (dropWhile (\<lambda>c. c \<noteq> CHR ''/'') (rev p)))"

lemma path_join_inject: "\<not> starts_with ''/'' b \<Longrightarrow> \<not> starts_with ''/'' c \<Longrightarrow>
    path_join a b = path_join a c \<longleftrightarrow> b = c"
  by (auto simp: path_join_def)

lemma parent_dir_join:
  assumes "CHR ''/'' \<notin> set b" "a \<noteq> []" "last a \<noteq> CHR ''/''"
  shows "parent_dir (path_join a b) = a"
proof -
  have "\<not> starts_with ''/'' b" using assms(1) by (auto simp: starts_with_iff)
  then have "rev (path_join a b) = rev b @ CHR ''/'' # rev a"
    using assms by (simp add: path_join_def)
  moreover have "dropWhile (\<lambda>c. c \<noteq> CHR ''/'') (rev b @ CHR ''/'' # rev a) = CHR ''/'' # rev a"
    using assms(1) by (subst dropWhile_append2) auto
  ultimately show ?thesis by (simp add: parent_dir_def)
qed

section \<open>Operations\<close>

definition fs_is_file :: "fs \<Rightarrow> string \<Rightarrow> bool" where
  "fs_is_file s p \<longleftrightarrow> dm_get (fs_files s) p \<noteq> None"

definition fs_is_dir :: "fs \<Rightarrow> string \<Rightarrow> bool" where
  "fs_is_dir s p \<longleftrightarrow> p \<in> set (fs_dirs s)"

definition fs_exists :: "fs \<Rightarrow> string \<Rightarrow> bool" where
  "fs_exists s p \<longleftrightarrow> fs_is_file s p \<or> fs_is_dir s p"

definition fs_read :: "fs \<Rightarrow> string \<Rightarrow> (io_error, string) res" where
  "fs_read s p =
     (if fs_is_dir s p then Inl IsADirectory
      else case dm_get (fs_files s) p of None \<Rightarrow> Inl NotFound | Some c \<Rightarrow> Inr c)"

definition fs_read_to_string :: "fs \<Rightarrow> string \<Rightarrow> (io_error, string) res" where
  "fs_read_to_string s p =
     bind_res (fs_read s p) (\<lambda>c. if is_str c then Inr c else Inl InvalidData)"

definition fs_write :: "string \<Rightarrow> string \<Rightarrow> fs \<Rightarrow> (io_error, unit) res \<times> fs" where
  "fs_write p c s =
     (if p \<in> set (fs_denied s) then (Inl PermissionDenied, s)
      else if fs_is_dir s p then (Inl IsADirectory, s)
      else if \<not> fs_is_dir s (parent_dir p) then (Inl NotFound, s)
      else (Inr (), s\<lparr>fs_files := dm_put p c (fs_files s), fs_writes := p # fs_writes s\<rparr>))"

definition fs_remove_file :: "string \<Rightarrow> fs \<Rightarrow> (io_error, unit) res \<times> fs" where
  "fs_remove_file p s =
     (if fs_is_dir s p then (Inl IsADirectory, s)
      else if \<not> fs_is_file s p then (Inl NotFound, s)
      else if p \<in> set (fs_denied s) then (Inl PermissionDenied, s)
      else (Inr (), s\<lparr>fs_files := dm_remove p (fs_files s)\<rparr>))"

definition fs_create_dir_all :: "string \<Rightarrow> fs \<Rightarrow> (io_error, unit) res \<times> fs" where
  "fs_create_dir_all d s =
     (if fs_is_dir s d then (Inr (), s)
      else if fs_is_file s d then (Inl OtherIo, s)
      else if d \<in> set (fs_denied s) then (Inl PermissionDenied, s)
      else (Inr (), s\<lparr>fs_dirs := d # fs_dirs s\<rparr>))"

text \<open>\<open>read_dir\<close>: the names of the entries of a directory, files and directories.\<close>

definition dir_name :: "string \<Rightarrow> string \<Rightarrow> string option" where
  "dir_name d p =
     (case strip_prefix (path_join d []) p of
        None \<Rightarrow> None
      | Some n \<Rightarrow> if n = [] \<or> CHR ''/'' \<in> set n then None else Some n)"

definition fs_read_dir :: "fs \<Rightarrow> string \<Rightarrow> (io_error, string list) res" where
  "fs_read_dir s d =
     (if fs_is_dir s d then Inr (List.map_filter (dir_name d) (map fst (fs_files s) @ fs_dirs s))
      else Inl NotFound)"

lemma fs_read_dir_names:
  "fs_read_dir s d = Inr ns \<Longrightarrow> n \<in> set ns \<Longrightarrow> \<exists>p. dir_name d p = Some n"
  by (auto simp: fs_read_dir_def map_filter_def simp del: map_append split: if_splits) blast+

lemma not_absolute: "CHR ''/'' \<notin> set n \<Longrightarrow> \<not> starts_with ''/'' n"
  by (auto simp: starts_with_iff)

lemma path_join_split: "\<not> starts_with ''/'' n \<Longrightarrow> path_join d n = path_join d [] @ n"
  by (auto simp: path_join_def starts_with_iff)

lemma dir_name_eq_Some:
  "dir_name d p = Some n \<longleftrightarrow> p = path_join d n \<and> n \<noteq> [] \<and> CHR ''/'' \<notin> set n"
proof -
  have "dir_name d p = Some n \<longleftrightarrow> p = path_join d [] @ n \<and> n \<noteq> [] \<and> CHR ''/'' \<notin> set n"
    by (auto simp: dir_name_def strip_prefix_eq_Some split: option.splits if_splits)
  then show ?thesis using path_join_split [OF not_absolute] by metis
qed

section \<open>The contract\<close>

locale file_store =
  fixes read :: "'s \<Rightarrow> string \<Rightarrow> string option"
    and writef :: "string \<Rightarrow> string \<Rightarrow> 's \<Rightarrow> (io_error, unit) res \<times> 's"
    and remove :: "string \<Rightarrow> 's \<Rightarrow> (io_error, unit) res \<times> 's"
    and stamps :: "'s \<Rightarrow> string list"
    and wf :: "'s \<Rightarrow> bool"
  assumes wf_write: "wf s \<Longrightarrow> wf (snd (writef p c s))"
    and wf_remove: "wf s \<Longrightarrow> wf (snd (remove p s))"
    and write_ok: "wf s \<Longrightarrow> writef p c s = (Inr (), s') \<Longrightarrow>
      read s' q = (if q = p then Some c else read s q)"
    and write_fail: "writef p c s = (Inl e, s') \<Longrightarrow> s' = s"
    and write_stamp: "writef p c s = (Inr (), s') \<Longrightarrow> stamps s' = p # stamps s"
    and remove_ok: "wf s \<Longrightarrow> remove p s = (Inr (), s') \<Longrightarrow>
      read s' q = (if q = p then None else read s q)"
    and remove_fail: "remove p s = (Inl e, s') \<Longrightarrow> s' = s"
begin

lemma write_other: "wf s \<Longrightarrow> q \<noteq> p \<Longrightarrow> read (snd (writef p c s)) q = read s q"
  using write_ok write_fail
  by (cases "writef p c s"; cases "fst (writef p c s)") (force, force)

lemma remove_other: "wf s \<Longrightarrow> q \<noteq> p \<Longrightarrow> read (snd (remove p s)) q = read s q"
  using remove_ok remove_fail
  by (cases "remove p s"; cases "fst (remove p s)") (force, force)

end

abbreviation fs_content :: "fs \<Rightarrow> string \<Rightarrow> string option" where
  "fs_content s p \<equiv> dm_get (fs_files s) p"

interpretation fsys: file_store fs_content fs_write fs_remove_file fs_writes fs_wf
  by unfold_locales
     (auto simp: fs_write_def fs_remove_file_def fs_wf_def dm.get_put dm_remove_get
        split: if_splits)

end
