(* ===== verification/Traefik.thy ===== *)
theory Traefik
  imports File_System
begin

text \<open>
  The Traefik file provider, \<open>zo-tunnel-server/src/traefik.rs\<close>: the configuration, the
  manager, the static routes, one route file per client, and the clean-up of old files. The
  generated YAML is written out line by line as the format strings have it.
\<close>

section \<open>Configuration\<close>

record traefik_config =
  tc_enabled :: bool
  tc_config_dir :: string
  tc_entrypoint :: string
  tc_cert_resolver :: string
  tc_service_url :: string

definition default_config_dir :: string where
  "default_config_dir = ''/etc/traefik/dynamic''"

definition default_entrypoint :: string where
  "default_entrypoint = ''websecure''"

definition default_cert_resolver :: string where
  "default_cert_resolver = ''letsencrypt''"

definition default_service_url :: string where
  "default_service_url = ''http://127.0.0.1:6210''"

definition traefik_default :: traefik_config where
  "traefik_default = \<lparr>tc_enabled = False, tc_config_dir = default_config_dir,
     tc_entrypoint = default_entrypoint, tc_cert_resolver = default_cert_resolver,
     tc_service_url = default_service_url\<rparr>"

definition auto_detect :: "fs \<Rightarrow> traefik_config" where
  "auto_detect s =
     (case find (fs_is_dir s) [''/etc/traefik/dynamic'', ''/etc/traefik/conf.d''] of
        Some dir \<Rightarrow> traefik_default\<lparr>tc_enabled := True, tc_config_dir := dir\<rparr>
      | None \<Rightarrow> traefik_default)"

definition SHARED_SERVICE :: string where
  "SHARED_SERVICE = ''zo-tunnel-server''"

definition BASE_FILE :: string where
  "BASE_FILE = ''_zo-tunnel-base.yml''"

record traefik_manager =
  tm_config :: traefik_config
  tm_domain :: string

section \<open>File names and contents\<close>

definition safe_char :: "nat \<Rightarrow> bool" where
  "safe_char c \<longleftrightarrow> (48 \<le> c \<and> c \<le> 57) \<or> (65 \<le> c \<and> c \<le> 90) \<or> (97 \<le> c \<and> c \<le> 122)
     \<or> c = 45 \<or> c = 95"

definition sanitize_id :: "string \<Rightarrow> string" where
  "sanitize_id s = of_chars (map (\<lambda>c. if safe_char c then c else 95) (chars s))"

definition client_file :: "traefik_manager \<Rightarrow> string \<Rightarrow> string" where
  "client_file m safe =
     path_join (tc_config_dir (tm_config m)) (''zo-tunnel-'' @ safe @ ''.yml'')"

definition base_file :: "traefik_manager \<Rightarrow> string" where
  "base_file m = path_join (tc_config_dir (tm_config m)) BASE_FILE"

definition yaml_line :: "string \<Rightarrow> string" where
  "yaml_line s = s @ [CHR 0x0A]"

definition router_lines :: "traefik_manager \<Rightarrow> string \<Rightarrow> string \<Rightarrow> string list" where
  "router_lines m router host =
     [''    '' @ router @ '':'',
      ''      rule: '' @ dquote @ ''Host(`'' @ host @ ''`)'' @ dquote,
      ''      entryPoints:'',
      ''        - '' @ dquote @ tc_entrypoint (tm_config m) @ dquote,
      ''      service: '' @ SHARED_SERVICE,
      ''      tls:'',
      ''        certResolver: '' @ tc_cert_resolver (tm_config m)]"

definition client_route :: "traefik_manager \<Rightarrow> string \<Rightarrow> string" where
  "client_route m client_id =
     concat (map yaml_line
       ([''http:'', ''  routers:'']
        @ router_lines m (''zo-tunnel-'' @ sanitize_id client_id)
            (client_id @ ''.'' @ tm_domain m)))"

definition static_routes :: "traefik_manager \<Rightarrow> string" where
  "static_routes m =
     concat (map yaml_line
       ([''http:'', ''  routers:'']
        @ router_lines m ''zo-tunnel-dashboard'' (''dashboard.'' @ tm_domain m)
        @ router_lines m ''zo-tunnel-apex'' (tm_domain m)
        @ [''  services:'',
           ''    '' @ SHARED_SERVICE @ '':'',
           ''      loadBalancer:'',
           ''        servers:'',
           ''          - url: '' @ dquote @ tc_service_url (tm_config m) @ dquote]))"

section \<open>Operations\<close>

definition ensure_dir :: "traefik_manager \<Rightarrow> fs \<Rightarrow> (io_error, unit) res \<times> fs" where
  "ensure_dir m s = fs_create_dir_all (tc_config_dir (tm_config m)) s"

definition write_static_routes :: "traefik_manager \<Rightarrow> fs \<Rightarrow> (io_error, unit) res \<times> fs" where
  "write_static_routes m s =
     (case ensure_dir m s of
        (Inl e, s1) \<Rightarrow> (Inl e, s1)
      | (Inr _, s1) \<Rightarrow> fs_write (base_file m) (static_routes m) s1)"

definition add_client :: "traefik_manager \<Rightarrow> string \<Rightarrow> fs \<Rightarrow> (io_error, unit) res \<times> fs" where
  "add_client m client_id s =
     (let safe = sanitize_id client_id;
          content = client_route m client_id;
          path = client_file m safe
      in if fs_exists s path \<and> fs_read_to_string s path = Inr content then (Inr (), s)
         else fs_write path content s)"

definition remove_client :: "traefik_manager \<Rightarrow> string \<Rightarrow> fs \<Rightarrow> (io_error, unit) res \<times> fs" where
  "remove_client m client_id s =
     (let path = client_file m (sanitize_id client_id)
      in if fs_exists s path then fs_remove_file path s else (Inr (), s))"

definition legacy_name :: "string \<Rightarrow> bool" where
  "legacy_name name \<longleftrightarrow>
     starts_with ''zo-'' name \<and> ends_with ''.yml'' name
     \<and> \<not> starts_with ''zo-tunnel-'' name \<and> name \<noteq> ''zo-static.yml''"

fun remove_legacy :: "string \<Rightarrow> string list \<Rightarrow> fs \<Rightarrow> fs" where
  "remove_legacy dir [] s = s"
| "remove_legacy dir (n # ns) s =
     remove_legacy dir ns
       (if legacy_name (of_chars (chars n)) then snd (fs_remove_file (path_join dir n) s) else s)"

definition cleanup_legacy_routes :: "traefik_manager \<Rightarrow> fs \<Rightarrow> (io_error, unit) res \<times> fs" where
  "cleanup_legacy_routes m s =
     (let dir = tc_config_dir (tm_config m)
      in if \<not> fs_is_dir s dir then (Inr (), s)
         else (case fs_read_dir s dir of
                 Inl e \<Rightarrow> (Inl e, s)
               | Inr names \<Rightarrow> (Inr (), remove_legacy dir names s)))"

definition cleanup_clients :: "traefik_manager \<Rightarrow> fs \<Rightarrow> (io_error, unit) res \<times> fs" where
  "cleanup_clients m s = cleanup_legacy_routes m s"

section \<open>Lemmas\<close>

lemma safe_char_ascii: "safe_char c \<Longrightarrow> c < 128"
  by (auto simp: safe_char_def)

lemma encode_ascii: "list_all (\<lambda>c. c < 128) cs \<Longrightarrow> encode_utf8 cs = cs"
  by (induction cs) (auto simp: encode_cp_1)

lemma sanitize_id_alt:
  "sanitize_id s = map char_of (map (\<lambda>c. if safe_char c then c else 95) (chars s))"
proof -
  have "list_all (\<lambda>c. c < 128) (map (\<lambda>c. if safe_char c then c else 95) (chars s))"
    by (auto simp: list_all_iff dest: safe_char_ascii)
  then show ?thesis by (simp only: sanitize_id_def of_chars_def encode_ascii)
qed

lemma sanitize_id_safe: "c \<in> set (sanitize_id s) \<Longrightarrow> safe_char (of_char c)"
proof -
  assume "c \<in> set (sanitize_id s)"
  then obtain k where "c = char_of (if safe_char k then k else 95)"
    by (auto simp: sanitize_id_alt)
  then show ?thesis
    by (cases "safe_char k") (auto dest: safe_char_ascii simp: safe_char_def)
qed

lemma sanitize_id_ident:
  assumes "\<And>c. c \<in> set s \<Longrightarrow> safe_char (of_char c)"
  shows "sanitize_id s = s"
proof -
  have "ascii s" using assms safe_char_ascii by (auto simp: ascii_def list_all_iff)
  moreover have "map (\<lambda>c. if safe_char c then c else 95) (str_bytes s) = str_bytes s"
    using assms by (auto simp: str_bytes_def intro: map_idI)
  ultimately show ?thesis by (simp only: sanitize_id_alt chars_ascii map_char_of_str_bytes)
qed

lemma sanitize_no_slash: "CHR ''/'' \<notin> set (''zo-tunnel-'' @ sanitize_id s @ ''.yml'')"
  using sanitize_id_safe [of "CHR ''/''" s] by (auto simp: safe_char_def)

lemma client_file_inject: "client_file m (sanitize_id a) = client_file m (sanitize_id b)
    \<longleftrightarrow> sanitize_id a = sanitize_id b"
  unfolding client_file_def
  by (subst path_join_inject) (simp_all add: starts_with_iff)

lemma dir_name_client_file:
  "dir_name (tc_config_dir (tm_config m)) (client_file m (sanitize_id a)) =
     Some (''zo-tunnel-'' @ sanitize_id a @ ''.yml'')"
  unfolding client_file_def dir_name_eq_Some using sanitize_no_slash by simp

lemma not_legacy_client: "\<not> legacy_name (''zo-tunnel-'' @ t)"
  by (simp add: legacy_name_def starts_with_iff)

lemma fs_is_dir_remove [simp]: "fs_is_dir (snd (fs_remove_file p s)) d = fs_is_dir s d"
  by (simp add: fs_remove_file_def fs_is_dir_def)

lemma remove_legacy_keeps:
  assumes "fs_wf s" "\<And>n. n \<in> set ns \<Longrightarrow> legacy_name (of_chars (chars n)) \<Longrightarrow> path_join dir n \<noteq> q"
  shows "fs_wf (remove_legacy dir ns s) \<and> fs_content (remove_legacy dir ns s) q = fs_content s q"
  using assms
proof (induction ns arbitrary: s)
  case (Cons n ns)
  then show ?case
    using fsys.wf_remove [of s "path_join dir n"] fsys.remove_other [of s q "path_join dir n"]
    by (cases "legacy_name (of_chars (chars n))") auto
qed simp

lemma is_str_client_route:
  assumes "is_str client_id" "is_str (tm_domain m)" "is_str (tc_entrypoint (tm_config m))"
    "is_str (tc_cert_resolver (tm_config m))"
  shows "is_str (client_route m client_id)"
proof -
  have "is_str (sanitize_id client_id)"
    using sanitize_id_safe safe_char_ascii by (intro ascii_is_str) (auto simp: ascii_def list_all_iff)
  with assms show ?thesis
    unfolding client_route_def router_lines_def
    by (intro is_str_concat) (simp add: yaml_line_def SHARED_SERVICE_def is_str_append)
qed

lemma add_client_cases:
  assumes "add_client m a s = (Inr (), s')"
  obtains (kept) "s' = s" "fs_read_to_string s (client_file m (sanitize_id a)) = Inr (client_route m a)"
  | (wrote) "fs_write (client_file m (sanitize_id a)) (client_route m a) s = (Inr (), s')"
proof (cases "fs_exists s (client_file m (sanitize_id a))
    \<and> fs_read_to_string s (client_file m (sanitize_id a)) = Inr (client_route m a)")
  case True
  with assms have "s' = s" by (simp add: add_client_def)
  with True show thesis using kept by blast
next
  case False
  with assms show thesis by (intro wrote) (simp only: add_client_def Let_def if_False)
qed

lemma fs_read_to_string_Inr:
  "fs_read_to_string s p = Inr c \<longleftrightarrow> \<not> fs_is_dir s p \<and> fs_content s p = Some c \<and> is_str c"
  by (auto simp: fs_read_to_string_def fs_read_def bind_res_eq_Inr split: option.splits)

lemma add_client_content:
  assumes "fs_wf s" "add_client m a s = (Inr (), s')"
  shows "fs_wf s'" "\<not> fs_is_dir s' (client_file m (sanitize_id a))"
    "fs_content s' q = (if q = client_file m (sanitize_id a) then Some (client_route m a)
                        else fs_content s q)"
  using assms(2)
proof (atomize(full), cases rule: add_client_cases)
  case kept
  then show "fs_wf s' \<and> \<not> fs_is_dir s' (client_file m (sanitize_id a)) \<and>
      fs_content s' q = (if q = client_file m (sanitize_id a) then Some (client_route m a)
                        else fs_content s q)"
    using assms(1) by (auto simp: fs_read_to_string_Inr)
next
  case wrote
  have "fs_wf s'" using fsys.wf_write [OF assms(1), of "client_file m (sanitize_id a)"] wrote
    by (metis snd_conv)
  moreover have "\<not> fs_is_dir s' (client_file m (sanitize_id a))"
    using wrote by (auto simp: fs_write_def fs_is_dir_def split: if_splits)
  ultimately show "fs_wf s' \<and> \<not> fs_is_dir s' (client_file m (sanitize_id a)) \<and>
      fs_content s' q = (if q = client_file m (sanitize_id a) then Some (client_route m a)
                        else fs_content s q)"
    using fsys.write_ok [OF assms(1) wrote] by blast
qed

lemma client_file_not_base: "client_file m (sanitize_id a) \<noteq> base_file m"
  unfolding client_file_def base_file_def
  by (subst path_join_inject) (simp_all add: starts_with_iff BASE_FILE_def)

text \<open>What an attempt to add a route leaves behind, whether it succeeds or not.\<close>

lemma add_client_effect:
  assumes "fs_wf s"
  shows "fs_wf (snd (add_client m b s))"
    "q \<noteq> client_file m (sanitize_id b) \<Longrightarrow> fs_content (snd (add_client m b s)) q = fs_content s q"
    "fs_content (snd (add_client m b s)) (client_file m (sanitize_id b))
       \<in> {fs_content s (client_file m (sanitize_id b)), Some (client_route m b)}"
proof (atomize (full), cases "fst (add_client m b s)")
  case (Inr u)
  then have "add_client m b s = (Inr (), snd (add_client m b s))" by (simp add: prod_eq_iff)
  from add_client_content [OF assms this]
  show "fs_wf (snd (add_client m b s))
    \<and> (q \<noteq> client_file m (sanitize_id b) \<longrightarrow> fs_content (snd (add_client m b s)) q = fs_content s q)
    \<and> fs_content (snd (add_client m b s)) (client_file m (sanitize_id b))
       \<in> {fs_content s (client_file m (sanitize_id b)), Some (client_route m b)}"
    by simp
next
  case (Inl e)
  then have "snd (add_client m b s) = s"
    using fsys.write_fail [of "client_file m (sanitize_id b)" "client_route m b" s]
    by (auto simp: add_client_def Let_def prod_eq_iff split: if_splits)
  then show "fs_wf (snd (add_client m b s))
    \<and> (q \<noteq> client_file m (sanitize_id b) \<longrightarrow> fs_content (snd (add_client m b s)) q = fs_content s q)
    \<and> fs_content (snd (add_client m b s)) (client_file m (sanitize_id b))
       \<in> {fs_content s (client_file m (sanitize_id b)), Some (client_route m b)}"
    using assms by simp
qed

section \<open>Properties\<close>

text \<open>C40: Registering a client's route succeeds only with the route file in place: the file of
  the client holds exactly its route, no other file changes, and doing it again writes nothing, so
  Traefik sees no new modification time when a client reconnects.\<close>

theorem add_client_installs_route:
  assumes "fs_wf s" and "add_client m a s = (Inr (), s')" and "is_str (client_route m a)"
  shows "fs_content s' (client_file m (sanitize_id a)) = Some (client_route m a)
    \<and> (\<forall>q. q \<noteq> client_file m (sanitize_id a) \<longrightarrow> fs_content s' q = fs_content s q)
    \<and> add_client m a s' = (Inr (), s')"
proof -
  note c = add_client_content [OF assms(1,2)]
  have r: "fs_read_to_string s' (client_file m (sanitize_id a)) = Inr (client_route m a)"
    using c assms(3) by (simp add: fs_read_to_string_Inr)
  moreover have "fs_exists s' (client_file m (sanitize_id a))"
    using c by (simp add: fs_exists_def fs_is_file_def)
  ultimately show ?thesis
    using c(3) by (simp add: add_client_def)
qed

abbreviation demo_manager :: traefik_manager where
  "demo_manager \<equiv> \<lparr>tm_config = traefik_default\<lparr>tc_enabled := True\<rparr>, tm_domain = ''t.io''\<rparr>"

abbreviation demo_fs :: fs where
  "demo_fs \<equiv> \<lparr>fs_files = [], fs_dirs = [''/etc/traefik/dynamic''], fs_denied = [], fs_writes = []\<rparr>"

lemma demo_fs_wf: "fs_wf demo_fs"
  by (simp add: fs_wf_def dm_wf_def)

lemma demo_client_file:
  "client_file demo_manager ''app'' = ''/etc/traefik/dynamic/zo-tunnel-app.yml''"
  by (simp add: client_file_def path_join_def starts_with_iff traefik_default_def
      default_config_dir_def)

lemma demo_sanitize: "sanitize_id ''app'' = ''app''"
  by (rule sanitize_id_ident) (auto simp: safe_char_def)

lemma demo_add_client: "\<exists>s'. add_client demo_manager ''app'' demo_fs = (Inr (), s')"
  by (simp add: add_client_def demo_sanitize demo_client_file fs_exists_def fs_is_file_def
      fs_is_dir_def fs_write_def parent_dir_def dm_get_def Let_def)

theorem add_client_installs_route_witness:
  "\<exists>s'. fs_content s' ''/etc/traefik/dynamic/zo-tunnel-app.yml''
         = Some (client_route demo_manager ''app'')"
proof -
  obtain s' where s': "add_client demo_manager ''app'' demo_fs = (Inr (), s')"
    using demo_add_client by blast
  have "is_str (client_route demo_manager ''app'')"
    by (rule is_str_client_route)
       (simp_all add: traefik_default_def default_entrypoint_def default_cert_resolver_def)
  from add_client_installs_route [OF demo_fs_wf s' this] show ?thesis
    unfolding demo_sanitize demo_client_file by blast
qed

text \<open>Whatever the client calls itself, its route file stays in the configured directory:
  the file name is the sanitized id between a fixed prefix and suffix, holds no path separator, and
  is never the base file or a legacy file that the clean-up deletes.\<close>

theorem client_file_confined:
  "dir_name (tc_config_dir (tm_config m)) (client_file m (sanitize_id a))
      = Some (''zo-tunnel-'' @ sanitize_id a @ ''.yml'')
   \<and> client_file m (sanitize_id a) \<noteq> base_file m
   \<and> \<not> legacy_name (''zo-tunnel-'' @ sanitize_id a @ ''.yml'')"
  using client_file_not_base dir_name_client_file not_legacy_client by blast

text \<open>The clean-up of legacy route files never touches the route of a client, live or
  not: every client's file has the same content before and after.\<close>

theorem cleanup_keeps_client_routes:
  assumes "fs_wf s" and "cleanup_clients m s = (r, s')"
  shows "fs_content s' (client_file m (sanitize_id a)) = fs_content s (client_file m (sanitize_id a))"
proof -
  let ?d = "tc_config_dir (tm_config m)"
  let ?n = "''zo-tunnel-'' @ sanitize_id a @ ''.yml''"
  have "ascii ?n"
    using sanitize_id_safe safe_char_ascii by (auto simp: ascii_def list_all_iff)
  then have n: "of_chars (chars ?n) = ?n" by (intro of_chars_chars ascii_is_str)
  have keep: "path_join ?d k \<noteq> client_file m (sanitize_id a)"
    if k: "k \<in> set ns" "legacy_name (of_chars (chars k))" "fs_read_dir s ?d = Inr ns" for k ns
  proof
    assume "path_join ?d k = client_file m (sanitize_id a)"
    moreover have "dir_name ?d (path_join ?d k) = Some k"
      using fs_read_dir_names [OF k(3,1)] by (auto simp: dir_name_eq_Some)
    ultimately have "k = ?n" using dir_name_client_file [of m a] by simp
    then show False using k(2) n not_legacy_client by simp
  qed
  show ?thesis
  proof (cases "fs_read_dir s ?d")
    case (Inl e)
    with assms(2) show ?thesis
      by (auto simp: cleanup_clients_def cleanup_legacy_routes_def Let_def split: if_splits)
  next
    case (Inr ns)
    with keep have "fs_content (remove_legacy ?d ns s) (client_file m (sanitize_id a))
        = fs_content s (client_file m (sanitize_id a))"
      using remove_legacy_keeps [OF assms(1)] by blast
    with Inr assms(2) show ?thesis
      by (auto simp: cleanup_clients_def cleanup_legacy_routes_def Let_def split: if_splits)
  qed
qed

theorem cleanup_keeps_client_routes_witness:
  "fs_content (snd (cleanup_clients demo_manager demo_fs)) (client_file demo_manager (sanitize_id ''app''))
     = fs_content demo_fs (client_file demo_manager (sanitize_id ''app''))"
  using cleanup_keeps_client_routes [OF demo_fs_wf prod.collapse [symmetric]] .

text \<open>Two different client ids with the same sanitized form share one route file, and the
  later registration takes it over: the route of the first client is gone, although both sessions
  stay registered.\<close>

theorem sanitized_ids_collide:
  assumes "fs_wf s" and "add_client m a s = (Inr (), s1)" and "add_client m b s1 = (Inr (), s2)"
    and "sanitize_id a = sanitize_id b"
  shows "fs_content s2 (client_file m (sanitize_id a)) = Some (client_route m b)
    \<and> (a \<noteq> b \<longrightarrow> client_route m a \<noteq> client_route m b)"
proof -
  have "client_route m a = client_route m b \<longrightarrow> a = b"
    using assms(4) by (simp add: client_route_def router_lines_def yaml_line_def)
  then show ?thesis
    using add_client_content [OF add_client_content(1) [OF assms(1,2)] assms(3)] assms(4) by auto
qed

lemma demo_sanitize_dot: "sanitize_id ''a.b'' = ''a_b''"
  by (simp add: sanitize_id_alt chars_ascii str_bytes_def safe_char_def char_of_eq_iff
      take_bit_nat_def)

lemma demo_sanitize_underscore: "sanitize_id ''a_b'' = ''a_b''"
  by (rule sanitize_id_ident) (auto simp: safe_char_def)

lemma demo_collide:
  "\<exists>s1 s2. add_client demo_manager ''a.b'' demo_fs = (Inr (), s1)
     \<and> add_client demo_manager ''a_b'' s1 = (Inr (), s2)"
  by (auto simp: add_client_def demo_sanitize_dot demo_sanitize_underscore fs_exists_def
      fs_is_file_def fs_is_dir_def fs_write_def parent_dir_def dm_get_def Let_def client_file_def
      path_join_def starts_with_iff traefik_default_def default_config_dir_def)

theorem sanitized_ids_collide_witness:
  "\<exists>s2. fs_content s2 (client_file demo_manager ''a_b'') = Some (client_route demo_manager ''a_b'')
     \<and> client_route demo_manager ''a.b'' \<noteq> client_route demo_manager ''a_b''"
  using demo_collide sanitized_ids_collide [OF demo_fs_wf, of demo_manager "''a.b''" _ "''a_b''"]
  unfolding demo_sanitize_dot demo_sanitize_underscore by force

end
