(* ===== verification/Server_Config.thy ===== *)
theory Server_Config
  imports Protocol Traefik
begin

text \<open>
  The server's configuration, \<open>zo-tunnel-server/src/config.rs\<close>, and how \<open>main.rs\<close> builds
  it from the command line, the configuration file and the environment. \<open>serde_yaml\<close>, the
  constant-time comparison of \<open>subtle\<close> and the random bytes of \<open>getrandom\<close> are parameters.
\<close>

section \<open>Data\<close>

definition RESERVED_SUBDOMAINS :: "string list" where
  "RESERVED_SUBDOMAINS =
     [''dashboard'', ''connect'', ''api'', ''www'', ''admin'', ''install'', ''download'']"

record dashboard_auth_config =
  da_token :: string
  da_session_ttl_secs :: u64

record rate_limit_config =
  rl_requests_per_second :: u32
  rl_max_connections_per_client :: u32

record server_config =
  control_port :: u16
  public_port :: u16
  domain :: string
  auth_tokens :: "string list"
  dashboard_auth :: dashboard_auth_config
  rate_limit :: rate_limit_config
  traefik :: traefik_config
  clients_dir :: string
  log_level :: string

definition default_session_ttl :: u64 where "default_session_ttl = 86400"

definition dashboard_auth_default :: dashboard_auth_config where
  "dashboard_auth_default = \<lparr>da_token = [], da_session_ttl_secs = default_session_ttl\<rparr>"

definition rate_limit_default :: rate_limit_config where
  "rate_limit_default = \<lparr>rl_requests_per_second = 100, rl_max_connections_per_client = 50\<rparr>"

definition server_config_default :: server_config where
  "server_config_default = \<lparr>control_port = DEFAULT_CONTROL_PORT, public_port = DEFAULT_PUBLIC_PORT,
     domain = [], auth_tokens = [], dashboard_auth = dashboard_auth_default,
     rate_limit = rate_limit_default, traefik = traefik_default,
     clients_dir = ''/var/lib/zo-tunnel/clients'', log_level = ''info''\<rparr>"

section \<open>Tokens\<close>

definition validate_token :: "server_config \<Rightarrow> string \<Rightarrow> bool" where
  "validate_token cfg token =
     (if auth_tokens cfg = [] then True else list_ex (\<lambda>t. t = token) (auth_tokens cfg))"

definition dashboard_auth_enabled :: "server_config \<Rightarrow> bool" where
  "dashboard_auth_enabled cfg \<longleftrightarrow> da_token (dashboard_auth cfg) \<noteq> []"

text \<open>\<open>ct_eq\<close> is the comparison of two byte slices of the \<open>subtle\<close> crate.\<close>

definition validate_dashboard_token :: "(bytes \<Rightarrow> bytes \<Rightarrow> bool) \<Rightarrow> server_config \<Rightarrow> string \<Rightarrow> bool" where
  "validate_dashboard_token ct_eq cfg token =
     (if \<not> dashboard_auth_enabled cfg then True
      else
        let expected = as_bytes (da_token (dashboard_auth cfg)); provided = as_bytes token
        in length expected = length provided \<and> ct_eq expected provided)"

definition generate_token :: "bytes \<Rightarrow> string" where
  "generate_token buf = concat (map hex02 buf)"

section \<open>Where the configuration file is\<close>

text \<open>The environment: variables that are set, and the effective user id.\<close>

record environment =
  env_vars :: "(string, string) dmap"
  euid :: nat

definition env_var :: "environment \<Rightarrow> string \<Rightarrow> string option" where
  "env_var e k = dm_get (env_vars e) k"

definition nix_is_root :: "environment \<Rightarrow> bool" where
  "nix_is_root e \<longleftrightarrow> euid e = 0"

definition dirs_fallback :: "environment \<Rightarrow> string" where
  "dirs_fallback e =
     (case env_var e ''XDG_CONFIG_HOME'' of
        Some d \<Rightarrow> d
      | None \<Rightarrow>
          let home = (case env_var e ''HOME'' of Some h \<Rightarrow> h | None \<Rightarrow> ''/tmp'')
          in path_join home ''.config'')"

definition server_config_dir :: "environment \<Rightarrow> string" where
  "server_config_dir e =
     (if nix_is_root e then ''/etc/zo-tunnel'' else path_join (dirs_fallback e) ''zo-tunnel'')"

definition server_config_path :: "environment \<Rightarrow> string" where
  "server_config_path e = path_join (server_config_dir e) ''server.yaml''"

definition resolve_config_path :: "environment \<Rightarrow> fs \<Rightarrow> string option" where
  "resolve_config_path e s =
     (let system_path = ''/etc/zo-tunnel/server.yaml'';
          user_path = path_join (path_join (dirs_fallback e) ''zo-tunnel'') ''server.yaml''
      in if fs_exists s system_path then Some system_path
         else if fs_exists s user_path then Some user_path
         else None)"

section \<open>Start-up\<close>

text \<open>\<open>from_str\<close> and \<open>to_string\<close> of \<open>serde_yaml\<close> for \<open>ServerConfig\<close>.\<close>

record yaml_codec =
  yaml_from_str :: "string \<Rightarrow> server_config option"
  yaml_to_string :: "server_config \<Rightarrow> string option"

datatype start_error =
  LoadIo io_error
| LoadParse
| MissingDomain
| SerializeFailed
| SaveIo io_error

definition load_config :: "yaml_codec \<Rightarrow> fs \<Rightarrow> string \<Rightarrow> (start_error, server_config) res" where
  "load_config y s path =
     (case fs_read_to_string s path of
        Inl e \<Rightarrow> Inl (LoadIo e)
      | Inr content \<Rightarrow> or_error LoadParse (yaml_from_str y content))"

record start_args =
  sa_domain :: "string option"
  sa_token :: "string option"
  sa_dashboard_token :: "string option"
  sa_control_port :: u16
  sa_public_port :: u16
  sa_config :: "string option"
  sa_force :: bool

text \<open>The 24 and 16 random bytes are drawn only where no token is given.\<close>

definition non_empty :: "string option \<Rightarrow> string option" where
  "non_empty o_tok = (case o_tok of Some t \<Rightarrow> if t = [] then None else Some t | None \<Rightarrow> None)"

definition build_config :: "bytes \<Rightarrow> bytes \<Rightarrow> fs \<Rightarrow> start_args \<Rightarrow> string \<Rightarrow> server_config" where
  "build_config rnd24 rnd16 s args domn =
     (let client_token = (case non_empty (sa_token args) of
                            Some t \<Rightarrow> t | None \<Rightarrow> generate_token rnd24);
          dash_token = (case non_empty (sa_dashboard_token args) of
                          Some t \<Rightarrow> t | None \<Rightarrow> generate_token rnd16)
      in server_config_default\<lparr>domain := domn, control_port := sa_control_port args,
           public_port := sa_public_port args, auth_tokens := [client_token],
           dashboard_auth := dashboard_auth_default\<lparr>da_token := dash_token\<rparr>,
           traefik := auto_detect s\<rparr>)"

definition override_traefik_dir :: "environment \<Rightarrow> server_config \<Rightarrow> server_config" where
  "override_traefik_dir e cfg =
     (case env_var e ''ZO_TRAEFIK_CONFIG_DIR'' of
        Some dir \<Rightarrow> cfg\<lparr>traefik := (traefik cfg)\<lparr>tc_enabled := True, tc_config_dir := dir\<rparr>\<rparr>
      | None \<Rightarrow> cfg)"

definition override_service_url :: "environment \<Rightarrow> server_config \<Rightarrow> server_config" where
  "override_service_url e cfg =
     (case env_var e ''ZO_TRAEFIK_SERVICE_URL'' of
        Some url \<Rightarrow> cfg\<lparr>traefik := (traefik cfg)\<lparr>tc_service_url := url\<rparr>\<rparr>
      | None \<Rightarrow> cfg)"

definition override_traefik_enabled :: "environment \<Rightarrow> server_config \<Rightarrow> server_config" where
  "override_traefik_enabled e cfg =
     (if env_var e ''ZO_TRAEFIK_ENABLED'' = Some ''true''
      then cfg\<lparr>traefik := (traefik cfg)\<lparr>tc_enabled := True\<rparr>\<rparr> else cfg)"

definition override_clients_dir :: "environment \<Rightarrow> server_config \<Rightarrow> server_config" where
  "override_clients_dir e cfg =
     (case env_var e ''ZO_CLIENTS_DIR'' of Some dir \<Rightarrow> cfg\<lparr>clients_dir := dir\<rparr> | None \<Rightarrow> cfg)"

definition override_token :: "environment \<Rightarrow> server_config \<Rightarrow> server_config" where
  "override_token e cfg =
     (case env_var e ''ZO_TOKEN'' of
        Some token \<Rightarrow> if token \<noteq> [] then cfg\<lparr>auth_tokens := [token]\<rparr> else cfg
      | None \<Rightarrow> cfg)"

definition override_dashboard_token :: "environment \<Rightarrow> server_config \<Rightarrow> server_config" where
  "override_dashboard_token e cfg =
     (case env_var e ''ZO_DASHBOARD_TOKEN'' of
        Some token \<Rightarrow>
          if token \<noteq> [] then cfg\<lparr>dashboard_auth := (dashboard_auth cfg)\<lparr>da_token := token\<rparr>\<rparr>
          else cfg
      | None \<Rightarrow> cfg)"

definition apply_env_overrides :: "environment \<Rightarrow> server_config \<Rightarrow> server_config" where
  "apply_env_overrides e cfg =
     override_dashboard_token e (override_token e (override_clients_dir e
       (override_traefik_enabled e (override_service_url e (override_traefik_dir e cfg)))))"

lemmas override_defs =
  override_traefik_dir_def override_service_url_def override_traefik_enabled_def
  override_clients_dir_def override_token_def override_dashboard_token_def

definition choose_config_path :: "environment \<Rightarrow> fs \<Rightarrow> start_args \<Rightarrow> string" where
  "choose_config_path e s args =
     (case sa_config args of
        Some p \<Rightarrow> p
      | None \<Rightarrow> (case resolve_config_path e s of Some p \<Rightarrow> p | None \<Rightarrow> server_config_path e))"

definition config_header :: "string \<Rightarrow> string" where
  "config_header path =
     ''# Zo Tunnel Server Configuration'' @ [CHR 0x0A] @ ''# Config path: '' @ path
       @ [CHR 0x0A] @ [CHR 0x0A]"

text \<open>\<open>run_server\<close> up to the start of the server: the configuration it runs with, or the error
  it stops with, and the file system it leaves.\<close>

definition prepare_config :: "yaml_codec \<Rightarrow> bytes \<Rightarrow> bytes \<Rightarrow> environment \<Rightarrow> start_args \<Rightarrow> fs
    \<Rightarrow> (start_error, server_config) res \<times> fs" where
  "prepare_config y rnd24 rnd16 e args s =
     (let path = choose_config_path e s args in
      if fs_exists s path \<and> \<not> sa_force args then
        (bind_res (load_config y s path) (\<lambda>cfg. Inr (apply_env_overrides e cfg)), s)
      else
        (case sa_domain args of
           None \<Rightarrow> (Inl MissingDomain, s)
         | Some domn \<Rightarrow>
             let cfg = build_config rnd24 rnd16 s args domn in
             (case fs_create_dir_all (parent_dir path) s of
                (Inl err, s1) \<Rightarrow> (Inl (SaveIo err), s1)
              | (Inr _, s1) \<Rightarrow>
                  (case yaml_to_string y cfg of
                     None \<Rightarrow> (Inl SerializeFailed, s1)
                   | Some yaml \<Rightarrow>
                       (case fs_write path (config_header path @ yaml) s1 of
                          (Inl err, s2) \<Rightarrow> (Inl (SaveIo err), s2)
                        | (Inr _, s2) \<Rightarrow> (Inr (apply_env_overrides e cfg), s2))))))"

text \<open>\<open>ServerConfig::save\<close>.\<close>

definition save_header :: "string \<Rightarrow> string" where
  "save_header path = concat (map yaml_line
     [''# Zo Tunnel Server Configuration'',
      ''# Generated by: zo-tunnel-server start --domain'',
      ''# Config path: '' @ path,
      ''#'',
      ''# To reconfigure, run: zo-tunnel-server start --domain YOUR_DOMAIN --force'',
      []])"

definition save_config :: "yaml_codec \<Rightarrow> environment \<Rightarrow> server_config \<Rightarrow> fs
    \<Rightarrow> (start_error, string) res \<times> fs" where
  "save_config y e cfg s =
     (case fs_create_dir_all (server_config_dir e) s of
        (Inl err, s1) \<Rightarrow> (Inl (SaveIo err), s1)
      | (Inr _, s1) \<Rightarrow>
          let path = server_config_path e in
          (case yaml_to_string y cfg of
             None \<Rightarrow> (Inl SerializeFailed, s1)
           | Some yaml \<Rightarrow>
               (case fs_write path (save_header path @ yaml) s1 of
                  (Inl err, s2) \<Rightarrow> (Inl (SaveIo err), s2)
                | (Inr _, s2) \<Rightarrow> (Inr path, s2))))"

section \<open>Lemmas\<close>

lemma validate_token_iff: "validate_token cfg t \<longleftrightarrow> auth_tokens cfg = [] \<or> t \<in> set (auth_tokens cfg)"
  by (auto simp: validate_token_def list_ex_iff)

lemma as_bytes_inject [simp]: "as_bytes s = as_bytes t \<longleftrightarrow> s = t"
  by (metis map_unat_as_bytes map_char_of_str_bytes)

lemma validate_dashboard_token_iff:
  assumes "\<And>a b. length a = length b \<Longrightarrow> ct_eq a b \<longleftrightarrow> a = b"
  shows "validate_dashboard_token ct_eq cfg t
    \<longleftrightarrow> \<not> dashboard_auth_enabled cfg \<or> t = da_token (dashboard_auth cfg)"
  using assms [of "as_bytes (da_token (dashboard_auth cfg))" "as_bytes t"]
  by (auto simp: validate_dashboard_token_def Let_def)

lemma length_generate_token [simp]: "length (generate_token b) = 2 * length b"
  by (induction b) (simp_all add: generate_token_def)

lemma generate_token_Nil [simp]: "generate_token b = [] \<longleftrightarrow> b = []"
  using length_generate_token [of b] by (metis length_0_conv mult_is_0 zero_neq_numeral)

lemma hex_digit_inject: "a < 16 \<Longrightarrow> b < 16 \<Longrightarrow> hex_digit a = hex_digit b \<longleftrightarrow> a = b"
  by (auto simp: hex_digit_def char_of_eq_iff take_bit_nat_eq_self split: if_splits)

lemma hex02_inject [simp]: "hex02 a = hex02 b \<longleftrightarrow> a = b"
proof
  assume eq: "hex02 a = hex02 b"
  have lt: "unat a div 16 < 16" "unat b div 16 < 16" using unat_bound8 [of a] unat_bound8 [of b] by auto
  from eq have "unat a div 16 = unat b div 16" "unat a mod 16 = unat b mod 16"
    using lt by (auto simp: hex02_def hex_digit_inject)
  then have "unat a = unat b" by (metis div_mult_mod_eq)
  then show "a = b" by (rule unsigned_word_eqI)
qed simp

lemma generate_token_Cons: "generate_token (x # b) = hex02 x @ generate_token b"
  by (simp add: generate_token_def)

lemma generate_token_inject: "generate_token a = generate_token b \<longleftrightarrow> a = b"
proof (induction a arbitrary: b)
  case Nil
  then show ?case by (metis generate_token_Nil)
next
  case (Cons x a)
  show ?case
  proof (cases b)
    case Nil
    then show ?thesis by (metis generate_token_Nil list.distinct(1))
  next
    case (Cons y b')
    then show ?thesis
      using Cons.IH by (simp add: generate_token_Cons append_eq_append_conv)
  qed
qed

lemma override_frames [simp]:
  "auth_tokens (override_traefik_dir e cfg) = auth_tokens cfg"
  "auth_tokens (override_service_url e cfg) = auth_tokens cfg"
  "auth_tokens (override_traefik_enabled e cfg) = auth_tokens cfg"
  "auth_tokens (override_clients_dir e cfg) = auth_tokens cfg"
  "auth_tokens (override_dashboard_token e cfg) = auth_tokens cfg"
  "dashboard_auth (override_traefik_dir e cfg) = dashboard_auth cfg"
  "dashboard_auth (override_service_url e cfg) = dashboard_auth cfg"
  "dashboard_auth (override_traefik_enabled e cfg) = dashboard_auth cfg"
  "dashboard_auth (override_clients_dir e cfg) = dashboard_auth cfg"
  "dashboard_auth (override_token e cfg) = dashboard_auth cfg"
  by (simp_all add: override_defs split: option.split)

lemma overrides_auth:
  "auth_tokens (apply_env_overrides e cfg) =
     (case non_empty (env_var e ''ZO_TOKEN'') of Some t \<Rightarrow> [t] | None \<Rightarrow> auth_tokens cfg)"
  "da_token (dashboard_auth (apply_env_overrides e cfg)) =
     (case non_empty (env_var e ''ZO_DASHBOARD_TOKEN'') of
        Some t \<Rightarrow> t | None \<Rightarrow> da_token (dashboard_auth cfg))"
  by (simp_all add: apply_env_overrides_def override_token_def override_dashboard_token_def
      non_empty_def split: option.split)

lemma non_empty_Some: "non_empty x = Some t \<Longrightarrow> t \<noteq> []"
  by (auto simp: non_empty_def split: option.splits if_splits)

section \<open>Properties\<close>

text \<open>A server that writes its own configuration is never open: it accepts exactly one
  client token, which is not empty, and its dashboard requires a token, which is not empty either,
  whatever the arguments and the environment say.\<close>

theorem fresh_server_is_closed:
  assumes "rnd24 \<noteq> []" and "rnd16 \<noteq> []"
    and "\<And>a b. length a = length b \<Longrightarrow> ct_eq a b \<longleftrightarrow> a = b"
  shows "let cfg = apply_env_overrides e (build_config rnd24 rnd16 s args d) in
    (\<exists>tok. tok \<noteq> [] \<and> (\<forall>t. validate_token cfg t \<longleftrightarrow> t = tok))
    \<and> (\<exists>dash. dash \<noteq> [] \<and> (\<forall>t. validate_dashboard_token ct_eq cfg t \<longleftrightarrow> t = dash))"
proof -
  define cfg where "cfg = apply_env_overrides e (build_config rnd24 rnd16 s args d)"
  have "\<exists>tok. tok \<noteq> [] \<and> auth_tokens cfg = [tok]"
    unfolding cfg_def overrides_auth using assms(1)
    by (auto simp: build_config_def Let_def dest: non_empty_Some split: option.split)
  moreover have "da_token (dashboard_auth cfg) \<noteq> []"
    unfolding cfg_def overrides_auth using assms(2)
    by (auto simp: build_config_def Let_def dest: non_empty_Some split: option.split)
  ultimately show ?thesis
    unfolding cfg_def [symmetric] Let_def
    by (auto simp: validate_token_iff validate_dashboard_token_iff [OF assms(3)]
        dashboard_auth_enabled_def)
qed

abbreviation demo_args :: start_args where
  "demo_args \<equiv> \<lparr>sa_domain = None, sa_token = Some '''', sa_dashboard_token = None,
     sa_control_port = 1, sa_public_port = 2, sa_config = None, sa_force = False\<rparr>"

theorem fresh_server_is_closed_witness:
  "\<exists>tok. tok \<noteq> [] \<and> validate_token (apply_env_overrides \<lparr>env_vars = [], euid = 0\<rparr>
     (build_config [1, 2] [3] demo_fs demo_args ''t.io'')) tok"
proof -
  have "[1, 2] \<noteq> ([] :: bytes)" "[3] \<noteq> ([] :: bytes)" by simp_all
  from fresh_server_is_closed [OF this, of "(=)" "\<lparr>env_vars = [], euid = 0\<rparr>" demo_fs demo_args
      "''t.io''", OF refl]
  show ?thesis unfolding Let_def by metis
qed

text \<open>A generated token is twice as long as its random bytes, in lower-case hexadecimal,
  and different random bytes give different tokens: no entropy is lost.\<close>

theorem generate_token_injective:
  "length (generate_token b) = 2 * length b
   \<and> list_all is_lower_hex (generate_token b)
   \<and> (generate_token b = generate_token b' \<longleftrightarrow> b = b')"
proof -
  have "list_all is_lower_hex (generate_token b)"
    using hex02_lower_hex by (auto simp: generate_token_def list_all_iff)
  then show ?thesis by (simp add: generate_token_inject)
qed

text \<open>A token of the environment always wins: with \<open>ZO_TOKEN\<close> set and not empty, it is
  the only token the server accepts, whatever the file says; set but empty, it changes nothing.\<close>

theorem env_token_wins:
  "validate_token (apply_env_overrides e cfg) t \<longleftrightarrow>
     (case env_var e ''ZO_TOKEN'' of
        None \<Rightarrow> validate_token cfg t
      | Some tok \<Rightarrow> if tok = [] then validate_token cfg t else t = tok)"
  by (auto simp: validate_token_iff overrides_auth non_empty_def split: option.split)

text \<open>An existing configuration file is used as it is unless \<open>--force\<close> is given: nothing
  is written, and the command line's domain, ports and tokens have no influence on the result.\<close>

theorem existing_config_kept:
  assumes "fs_exists s (choose_config_path e s args)" and "\<not> sa_force args"
  shows "snd (prepare_config y r24 r16 e args s) = s
    \<and> prepare_config y r24 r16 e (args\<lparr>sa_domain := d, sa_token := t, sa_dashboard_token := dt,
        sa_control_port := cp, sa_public_port := pp\<rparr>) s = prepare_config y r24 r16 e args s"
  using assms by (simp add: prepare_config_def choose_config_path_def Let_def)

theorem existing_config_kept_witness:
  "snd (prepare_config \<lparr>yaml_from_str = (\<lambda>_. None), yaml_to_string = (\<lambda>_. None)\<rparr> [] []
      \<lparr>env_vars = [], euid = 0\<rparr>
      \<lparr>sa_domain = None, sa_token = None, sa_dashboard_token = None, sa_control_port = 1,
        sa_public_port = 2, sa_config = Some ''/c'', sa_force = False\<rparr>
      (demo_fs\<lparr>fs_files := [(''/c'', '''')]\<rparr>))
    = demo_fs\<lparr>fs_files := [(''/c'', '''')]\<rparr>"
  by (rule existing_config_kept [THEN conjunct1])
     (simp_all add: choose_config_path_def fs_exists_def fs_is_file_def dm_get_def)

end
