(* ===== verification/Metrics.thy ===== *)
theory Metrics
  imports Atomic_Map
begin

text \<open>
  Server metrics and the per-client rate limiter, \<open>zo-tunnel-server/src/metrics.rs\<close>. Atomic
  counters are \<open>u64\<close> words, whose \<open>fetch_add\<close> wraps around. The limiter reads the clock
  once per check; the time is an argument here.
\<close>

section \<open>Metrics\<close>

record metrics =
  started_at :: instant
  total_requests :: u64
  total_bytes_in :: u64
  total_bytes_out :: u64
  active_connections :: u64
  total_connections :: u64
  failed_auth :: u64
  rate_limited :: u64

definition metrics_new :: "instant \<Rightarrow> metrics" where
  "metrics_new now = \<lparr>started_at = now, total_requests = 0, total_bytes_in = 0,
     total_bytes_out = 0, active_connections = 0, total_connections = 0, failed_auth = 0,
     rate_limited = 0\<rparr>"

record metrics_snapshot =
  ms_uptime_secs :: nat
  ms_total_requests :: u64
  ms_total_bytes_in :: u64
  ms_total_bytes_out :: u64
  ms_active_connections :: u64
  ms_total_connections :: u64
  ms_failed_auth :: u64
  ms_rate_limited :: u64

definition snapshot :: "instant \<Rightarrow> metrics \<Rightarrow> metrics_snapshot" where
  "snapshot now m = \<lparr>ms_uptime_secs = as_secs (elapsed now (started_at m)),
     ms_total_requests = total_requests m, ms_total_bytes_in = total_bytes_in m,
     ms_total_bytes_out = total_bytes_out m, ms_active_connections = active_connections m,
     ms_total_connections = total_connections m, ms_failed_auth = failed_auth m,
     ms_rate_limited = rate_limited m\<rparr>"

section \<open>Rate limiter\<close>

record rate_limiter =
  max_per_second :: u32
  counters :: "(string, instant \<times> u32) dmap"

definition rate_limiter_new :: "u32 \<Rightarrow> rate_limiter" where
  "rate_limiter_new n = \<lparr>max_per_second = n, counters = dm_empty\<rparr>"

definition check :: "instant \<Rightarrow> string \<Rightarrow> rate_limiter \<Rightarrow> bool \<times> rate_limiter" where
  "check now key rl =
     (if max_per_second rl = 0 then (True, rl)
      else
        let (window_start, count) =
              (case dm_get (counters rl) key of Some e \<Rightarrow> e | None \<Rightarrow> (now, 0))
        in if as_secs (now - window_start) \<ge> 1
           then (True, rl\<lparr>counters := dm_put key (now, 1) (counters rl)\<rparr>)
           else if count < max_per_second rl
           then (True, rl\<lparr>counters := dm_put key (window_start, count + 1) (counters rl)\<rparr>)
           else (False, rl\<lparr>counters := dm_put key (window_start, count) (counters rl)\<rparr>))"

section \<open>One key at a time\<close>

text \<open>
  The behaviour of one key: its bucket is a window start and a count. \<open>bucket_run\<close> is the
  list of answers over a list of request times; \<open>check_run\<close> the answers of the limiter over
  requests of any keys.
\<close>

definition bucket_check :: "u32 \<Rightarrow> instant \<Rightarrow> (instant \<times> u32) option
    \<Rightarrow> bool \<times> (instant \<times> u32) option" where
  "bucket_check mx now b =
     (if mx = 0 then (True, b)
      else
        let (ws, c) = (case b of Some e \<Rightarrow> e | None \<Rightarrow> (now, 0))
        in if as_secs (now - ws) \<ge> 1 then (True, Some (now, 1))
           else if c < mx then (True, Some (ws, c + 1))
           else (False, Some (ws, c)))"

fun bucket_run :: "u32 \<Rightarrow> instant list \<Rightarrow> (instant \<times> u32) option \<Rightarrow> bool list" where
  "bucket_run mx [] b = []"
| "bucket_run mx (t # ts) b =
     (let (ok, b') = bucket_check mx t b in ok # bucket_run mx ts b')"

fun check_run :: "(instant \<times> string) list \<Rightarrow> rate_limiter \<Rightarrow> (string \<times> bool) list" where
  "check_run [] rl = []"
| "check_run ((t, k) # rs) rl =
     (let (ok, rl') = check t k rl in (k, ok) # check_run rs rl')"

lemma check_bucket:
  assumes "dm_wf (counters rl)"
  shows "fst (check t k rl) = fst (bucket_check (max_per_second rl) t (dm_get (counters rl) k))"
    "dm_get (counters (snd (check t k rl))) k' =
       (if k' = k then snd (bucket_check (max_per_second rl) t (dm_get (counters rl) k))
        else dm_get (counters rl) k')"
    "max_per_second (snd (check t k rl)) = max_per_second rl"
    "dm_wf (counters (snd (check t k rl)))"
  using assms
  by (auto simp: check_def bucket_check_def Let_def dm.get_put split: prod.split option.split)

lemma check_run_key:
  assumes "dm_wf (counters rl)"
  shows "map snd (filter (\<lambda>r. fst r = k) (check_run rs rl))
    = bucket_run (max_per_second rl) (map fst (filter (\<lambda>r. snd r = k) rs)) (dm_get (counters rl) k)"
  using assms
proof (induction rs arbitrary: rl)
  case (Cons r rs)
  obtain t j where r: "r = (t, j)" by (cases r)
  note c = check_bucket [OF Cons.prems, of t j]
  show ?case
    using Cons.IH [OF c(4)] c(1,3) c(2) [of k] r
    by (cases "j = k") (auto simp: Let_def split: prod.splits)
qed simp

text \<open>The number of requests of one key that the limiter lets through.\<close>

definition allowed :: "bool list \<Rightarrow> nat" where
  "allowed bs = length (filter id bs)"

lemma allowed_simps [simp]:
  "allowed [] = 0" "allowed (True # bs) = Suc (allowed bs)" "allowed (False # bs) = allowed bs"
  by (simp_all add: allowed_def)

lemma unat_Suc_less: "(c :: u32) < m \<Longrightarrow> unat (c + 1) = Suc (unat c)"
proof -
  assume "c < m"
  then have "Suc (unat c) < 2 ^ 32"
    using unat_bound32 [of m] by (simp add: word_less_nat_alt)
  then show ?thesis by (simp add: unat_word_ariths)
qed

text \<open>
  Potential argument: with \<open>c\<close> of \<open>mx\<close> requests used in the current window, which started
  at \<open>ws\<close>, at most \<open>mx - c\<close> more pass in this window, and at most \<open>mx\<close> in each whole
  second until \<open>T\<close>.
\<close>

lemma bucket_bound:
  assumes "sorted (ws # ts)" "\<forall>t \<in> set ts. t \<le> T" "c \<le> mx" "mx \<noteq> 0"
  shows "allowed (bucket_run mx ts (Some (ws, c)))
    \<le> (unat mx - unat c) + unat mx * as_secs (T - ws)"
  using assms(1-3)
proof (induction ts arbitrary: ws c)
  case Nil
  then show ?case by simp
next
  case (Cons t ts)
  let ?m = "unat mx"
  have t: "ws \<le> t" "t \<le> T" "sorted (t # ts)" "sorted (ws # ts)" "\<forall>t \<in> set ts. t \<le> T"
    using Cons.prems by auto
  have c: "unat c \<le> ?m" using Cons.prems(3) by (simp add: word_le_nat_alt)
  show ?case
  proof (cases "as_secs (t - ws) \<ge> 1")
    case True
    then have "nanos_per_sec \<le> t - ws"
      by (metis as_secs_def div_less less_one linorder_not_le)
    then have "(T - t) + nanos_per_sec \<le> T - ws" using t by simp
    then have "as_secs (T - t + nanos_per_sec) \<le> as_secs (T - ws)"
      unfolding as_secs_def by (rule div_le_mono)
    then have s: "Suc (as_secs (T - t)) \<le> as_secs (T - ws)" by (simp add: as_secs_add)
    have one: "1 \<le> mx" "1 \<le> ?m" using assms(4) by (simp_all add: word_le_nat_alt unat_gt_0 Suc_leI)
    have "allowed (bucket_run mx (t # ts) (Some (ws, c)))
        = Suc (allowed (bucket_run mx ts (Some (t, 1))))"
      using True assms(4) by (simp add: bucket_check_def)
    also have "\<dots> \<le> Suc ((?m - 1) + ?m * as_secs (T - t))"
      using Cons.IH [OF t(3,5) one(1)] by simp
    also have "\<dots> = ?m * Suc (as_secs (T - t))" using one(2) by simp
    also have "\<dots> \<le> ?m * as_secs (T - ws)" using s by (rule mult_le_mono2)
    finally show ?thesis by simp
  next
    case False
    show ?thesis
    proof (cases "c < mx")
      case True
      note u = unat_Suc_less [OF True]
      have "c + 1 \<le> mx" using True u by (simp add: word_le_nat_alt word_less_nat_alt)
      from Cons.IH [OF t(4,5) this] show ?thesis
        using False True assms(4) u by (simp add: bucket_check_def word_less_nat_alt)
    next
      case False': False
      from Cons.IH [OF t(4,5) Cons.prems(3)] show ?thesis
        using False False' assms(4) by (simp add: bucket_check_def)
    qed
  qed
qed

lemma bucket_bound_fresh:
  assumes "sorted (t # ts)" "\<forall>s \<in> set (t # ts). s \<le> T" "mx \<noteq> 0"
  shows "allowed (bucket_run mx (t # ts) None) \<le> unat mx * Suc (as_secs (T - t))"
proof -
  have one: "0 < mx" "1 \<le> mx" "1 \<le> unat mx"
    using assms(3) by (simp_all add: word_le_nat_alt word_less_nat_alt unat_gt_0 Suc_leI)
  have "allowed (bucket_run mx (t # ts) None) = Suc (allowed (bucket_run mx ts (Some (t, 1))))"
    using one assms(3) by (simp add: bucket_check_def as_secs_def)
  also have "\<dots> \<le> Suc ((unat mx - 1) + unat mx * as_secs (T - t))"
    using bucket_bound [OF assms(1) _ one(2) assms(3)] assms(2) by simp
  finally show ?thesis using one(3) by simp
qed

lemma bucket_all_allowed:
  assumes "\<forall>t \<in> set ts. as_secs (t - ws) = 0" "unat c + length ts \<le> unat mx" "mx \<noteq> 0"
  shows "bucket_run mx ts (Some (ws, c)) = replicate (length ts) True"
  using assms(1,2)
proof (induction ts arbitrary: c)
  case (Cons t ts)
  then have "c < mx" by (simp add: word_less_nat_alt)
  moreover from this have "unat (c + 1) + length ts \<le> unat mx"
    using Cons.prems(2) by (simp add: unat_Suc_less)
  ultimately show ?case
    using Cons.IH [of "c + 1"] Cons.prems(1) assms(3) by (simp add: bucket_check_def)
qed simp

section \<open>Properties\<close>

text \<open>C23: The limiter bounds every client's rate. Over any sequence of requests in time order,
  of any clients interleaved, a client that starts fresh gets at most the configured number of
  requests through per started second between its first request and the end of the run.\<close>

theorem rate_limit_bound:
  assumes "0 < mx" and "sorted (map fst rs)" and "\<forall>r \<in> set rs. fst r \<le> T"
    and "map fst (filter (\<lambda>r. snd r = k) rs) = t # ts"
  shows "allowed (map snd (filter (\<lambda>r. fst r = k) (check_run rs (rate_limiter_new mx))))
    \<le> unat mx * Suc (as_secs (T - t))"
proof -
  have s: "sorted (map fst (filter (\<lambda>r. snd r = k) rs))"
    using assms(2) by (rule sorted_filter)
  have "set (map fst (filter (\<lambda>r. snd r = k) rs)) \<subseteq> fst ` set rs" by auto
  then have T: "\<forall>s \<in> set (t # ts). s \<le> T" using assms(3,4) by auto
  have "mx \<noteq> 0" using assms(1) by simp
  from bucket_bound_fresh [OF s [unfolded assms(4)] T this] show ?thesis
    using check_run_key [of "rate_limiter_new mx" k rs] assms(4)
    by (simp add: rate_limiter_new_def)
qed

theorem rate_limit_bound_witness:
  "allowed (map snd (filter (\<lambda>r. fst r = ''a'')
     (check_run [(0, ''a''), (1, ''b''), (2, ''a''), (3, ''a'')] (rate_limiter_new 2))))
   \<le> unat (2 :: u32) * Suc (as_secs (3 - 0))"
  by (rule rate_limit_bound) simp_all

text \<open>Clients do not share their budget: what the limiter answers to one client over an
  interleaved run is what it would answer if that client's requests were the only ones.\<close>

theorem rate_limit_isolated:
  "filter (\<lambda>r. fst r = k) (check_run rs (rate_limiter_new mx))
     = check_run (filter (\<lambda>r. snd r = k) rs) (rate_limiter_new mx)"
proof -
  have keys: "map fst (check_run rs rl) = map snd rs" for rs rl
    by (induction rs rl rule: check_run.induct) (auto split: prod.splits)
  have pair: "xs = map (Pair k) (map snd xs)" if "\<forall>r \<in> set xs. fst r = k" for xs :: "(string \<times> bool) list"
    using that by (induction xs) auto
  let ?f = "filter (\<lambda>r. snd r = k) rs"
  have all: "\<forall>r \<in> set (check_run ?f (rate_limiter_new mx)). fst r = k"
  proof
    fix r assume "r \<in> set (check_run ?f (rate_limiter_new mx))"
    then have "fst r \<in> set (map fst (check_run ?f (rate_limiter_new mx)))" by simp
    then show "fst r = k" unfolding keys by auto
  qed
  have "map snd (filter (\<lambda>r. fst r = k) (check_run rs (rate_limiter_new mx)))
      = map snd (filter (\<lambda>r. fst r = k) (check_run ?f (rate_limiter_new mx)))"
    by (simp add: check_run_key rate_limiter_new_def)
  also have "\<dots> = map snd (check_run ?f (rate_limiter_new mx))"
    using all by (simp add: filter_True)
  finally show ?thesis
    using pair [of "filter (\<lambda>r. fst r = k) (check_run rs (rate_limiter_new mx))"]
      pair [OF all] by simp
qed

text \<open>A client within its budget is never refused: if a client's requests all fall within
  one second of its first one, and there are at most as many as configured, all pass.\<close>

theorem rate_limit_lets_through:
  assumes "map fst (filter (\<lambda>r. snd r = k) rs) = t # ts"
    and "\<forall>s \<in> set ts. s - t < nanos_per_sec" and "Suc (length ts) \<le> unat mx"
  shows "\<forall>r \<in> set (check_run rs (rate_limiter_new mx)). fst r = k \<longrightarrow> snd r"
proof -
  have mx: "mx \<noteq> 0" "0 < mx" using assms(3) by (auto simp: word_less_nat_alt)
  have "bucket_run mx (t # ts) None = True # bucket_run mx ts (Some (t, 1))"
    using mx by (simp add: bucket_check_def as_secs_def)
  also have "\<dots> = True # replicate (length ts) True"
    using bucket_all_allowed [of ts t 1 mx] assms(2,3) mx by (simp add: as_secs_def)
  finally have "map snd (filter (\<lambda>r. fst r = k) (check_run rs (rate_limiter_new mx)))
      = replicate (Suc (length ts)) True"
    using check_run_key [of "rate_limiter_new mx" k rs] assms(1)
    by (simp add: rate_limiter_new_def)
  then have "\<forall>b \<in> set (map snd (filter (\<lambda>r. fst r = k) (check_run rs (rate_limiter_new mx)))). b"
    by simp
  then show ?thesis by auto
qed

theorem rate_limit_lets_through_witness:
  "filter (\<lambda>r. fst r = ''a'' \<and> \<not> snd r)
     (check_run [(5, ''a''), (6, ''b''), (7, ''a'')] (rate_limiter_new 2)) = []"
  using rate_limit_lets_through [where k = "''a''" and t = 5 and ts = "[7]" and mx = 2
      and rs = "[(5, ''a''), (6, ''b''), (7, ''a'')]"]
  by (auto simp: nanos_per_sec_def filter_empty_conv)

text \<open>The limiter's windows are fixed, not sliding: with a limit of 3 per second, five
  requests pass within one nanosecond, at the border of two windows.\<close>

theorem rate_limit_not_sliding:
  "map snd (check_run [(0, ''a''), (999999999, ''a''), (999999999, ''a''),
      (1000000000, ''a''), (1000000000, ''a''), (1000000000, ''a'')] (rate_limiter_new 3))
   = [True, True, True, True, True, True]"
  by (simp add: check_def rate_limiter_new_def as_secs_def nanos_per_sec_def dm_get_def dm_put_def
      dm_empty_def)

end
