(* ===== verification/Registry.thy ===== *)
theory Registry
  imports Server_Config
begin

text \<open>
  The client registry, \<open>zo-tunnel-server/src/registry.rs\<close>.

  Clients, yamux handles and the cells they share live behind \<open>Arc\<close>s: several parts of the
  server hold the same object. The model has one heap with an arena per kind of object; an
  \<open>Arc\<close> is an index into its arena, so an update through one holder is seen by the others:
    \<^item> \<open>tasks\<close>: the driver task behind a \<open>YamuxHandle\<close>: whether its command receiver is
      alive (\<open>cmd_tx.is_closed()\<close> asks for the contrary) and whether \<open>abort()\<close> was called;
    \<^item> \<open>activity\<close>: \<open>Arc<Mutex<Instant>>\<close>, \<open>None\<close> once the lock is poisoned;
    \<^item> \<open>missed\<close>: \<open>Arc<AtomicU32>\<close>;
    \<^item> \<open>clients_heap\<close>: \<open>Arc<ClientEntry>\<close>.
  Indices only grow and objects are never freed, so a reference never dangles.
\<close>

section \<open>Objects\<close>

record client_metrics =
  cm_bytes_in :: u64
  cm_bytes_out :: u64
  cm_requests :: u64
  cm_active_streams :: u64

definition client_metrics_new :: client_metrics where
  "client_metrics_new = \<lparr>cm_bytes_in = 0, cm_bytes_out = 0, cm_requests = 0, cm_active_streams = 0\<rparr>"

record client_entry =
  ce_client_id :: string
  ce_session_id :: u64
  ce_handle :: nat
  ce_connected_at :: instant
  ce_last_activity :: nat
  ce_missed_heartbeats :: nat
  ce_metrics :: client_metrics
  ce_supports_heartbeat :: bool

record driver_task =
  receiver_alive :: bool
  abort_requested :: bool

record heap =
  clock :: instant
  tasks :: "driver_task list"
  activity :: "instant option list"
  missed :: "u32 list"
  clients_heap :: "client_entry list"

record registry =
  clients :: "(string, nat) dmap"
  next_session :: u64

definition registry_new :: registry where
  "registry_new = \<lparr>clients = dm_empty, next_session = 1\<rparr>"

section \<open>Handles and entries\<close>

definition handle_abort :: "nat \<Rightarrow> heap \<Rightarrow> heap" where
  "handle_abort h s = s\<lparr>tasks := (tasks s)[h := (tasks s ! h)\<lparr>abort_requested := True\<rparr>]\<rparr>"

definition handle_is_closed :: "heap \<Rightarrow> nat \<Rightarrow> bool" where
  "handle_is_closed s h \<longleftrightarrow> \<not> receiver_alive (tasks s ! h)"

definition touch :: "nat \<Rightarrow> heap \<Rightarrow> heap" where
  "touch e s =
     (let a = ce_last_activity (clients_heap s ! e) in
      case activity s ! a of
        Some _ \<Rightarrow> s\<lparr>activity := (activity s)[a := Some (clock s)]\<rparr>
      | None \<Rightarrow> s)"

definition is_alive :: "heap \<Rightarrow> nat \<Rightarrow> bool" where
  "is_alive s e =
     (let c = clients_heap s ! e in
      if handle_is_closed s (ce_handle c) then False
      else if ce_supports_heartbeat c
              \<and> missed s ! ce_missed_heartbeats c \<ge> TAKEOVER_AFTER_MISSED_HEARTBEATS then False
      else case activity s ! ce_last_activity c of
             Some ts \<Rightarrow> elapsed (clock s) ts < from_secs SESSION_STALE_SECS
           | None \<Rightarrow> False)"

definition update_metrics :: "nat \<Rightarrow> (client_metrics \<Rightarrow> client_metrics) \<Rightarrow> heap \<Rightarrow> heap" where
  "update_metrics e f s =
     s\<lparr>clients_heap := (clients_heap s)[e :=
         (clients_heap s ! e)\<lparr>ce_metrics := f (ce_metrics (clients_heap s ! e))\<rparr>]\<rparr>"

section \<open>Registry operations\<close>

text \<open>
  \<open>register\<close> runs in two atomic steps: the reserved check, \<open>fetch_add\<close> on the session
  counter and the new entry; then the exchange in the map, under its lock. Between the two, other
  tasks may run. \<open>register\<close> is their composition.
\<close>

datatype register_error = ReservedId string

fun register_error_text :: "register_error \<Rightarrow> string" where
  "register_error_text (ReservedId client_id) =
     ''Client ID '' @ squote @ client_id @ squote
       @ '' is reserved (conflicts with system subdomain)''"

definition register_alloc ::
  "string \<Rightarrow> nat \<Rightarrow> bool \<Rightarrow> nat \<Rightarrow> nat \<Rightarrow> registry \<Rightarrow> heap
     \<Rightarrow> (register_error, nat) res \<times> registry \<times> heap" where
  "register_alloc client_id handle supports_hb last_act missed_hb r s =
     (if client_id \<in> set RESERVED_SUBDOMAINS then (Inl (ReservedId client_id), r, s)
      else
        let session_id = next_session r;
            entry = \<lparr>ce_client_id = client_id, ce_session_id = session_id, ce_handle = handle,
                     ce_connected_at = clock s, ce_last_activity = last_act,
                     ce_missed_heartbeats = missed_hb, ce_metrics = client_metrics_new,
                     ce_supports_heartbeat = supports_hb\<rparr>
        in (Inr (length (clients_heap s)), r\<lparr>next_session := session_id + 1\<rparr>,
            s\<lparr>clients_heap := clients_heap s @ [entry]\<rparr>))"

definition register_insert :: "nat \<Rightarrow> registry \<Rightarrow> heap \<Rightarrow> bool \<times> registry \<times> heap" where
  "register_insert e r s =
     (let client_id = ce_client_id (clients_heap s ! e);
          r' = r\<lparr>clients := dm_put client_id e (clients r)\<rparr>
      in case dm_get (clients r) client_id of
           Some old \<Rightarrow> (True, r', handle_abort (ce_handle (clients_heap s ! old)) s)
         | None \<Rightarrow> (False, r', s))"

definition register ::
  "string \<Rightarrow> nat \<Rightarrow> bool \<Rightarrow> nat \<Rightarrow> nat \<Rightarrow> registry \<Rightarrow> heap
     \<Rightarrow> (register_error, nat \<times> bool) res \<times> registry \<times> heap" where
  "register client_id handle supports_hb last_act missed_hb r s =
     (case register_alloc client_id handle supports_hb last_act missed_hb r s of
        (Inl e, r1, s1) \<Rightarrow> (Inl e, r1, s1)
      | (Inr entry, r1, s1) \<Rightarrow>
          (case register_insert entry r1 s1 of
             (replaced, r2, s2) \<Rightarrow> (Inr (entry, replaced), r2, s2)))"

definition unregister :: "string \<Rightarrow> u64 \<Rightarrow> heap \<Rightarrow> registry \<Rightarrow> bool \<times> registry" where
  "unregister client_id session_id s r =
     (let p = (\<lambda>e. ce_session_id (clients_heap s ! e) = session_id);
          removed = (case dm_get (clients r) client_id of Some e \<Rightarrow> p e | None \<Rightarrow> False)
      in (removed, r\<lparr>clients := dm_remove_if p client_id (clients r)\<rparr>))"

definition registry_get :: "registry \<Rightarrow> string \<Rightarrow> nat option" where
  "registry_get r client_id = dm_get (clients r) client_id"

record client_info =
  ci_client_id :: string
  ci_connected_at_secs :: nat
  ci_bytes_in :: u64
  ci_bytes_out :: u64
  ci_total_requests :: u64
  ci_active_streams :: u64
  ci_healthy :: bool

definition client_info_of :: "heap \<Rightarrow> nat \<Rightarrow> client_info" where
  "client_info_of s e =
     (let c = clients_heap s ! e in
      \<lparr>ci_client_id = ce_client_id c,
       ci_connected_at_secs = as_secs (elapsed (clock s) (ce_connected_at c)),
       ci_bytes_in = cm_bytes_in (ce_metrics c), ci_bytes_out = cm_bytes_out (ce_metrics c),
       ci_total_requests = cm_requests (ce_metrics c),
       ci_active_streams = cm_active_streams (ce_metrics c), ci_healthy = is_alive s e\<rparr>)"

definition registry_list :: "heap \<Rightarrow> registry \<Rightarrow> client_info list" where
  "registry_list s r = map (\<lambda>(_, e). client_info_of s e) (clients r)"

definition registry_count :: "registry \<Rightarrow> nat" where
  "registry_count r = length (clients r)"

section \<open>Well-formedness\<close>

text \<open>
  Every registered entry exists and is filed under its own id, which is not reserved; the
  \<open>i\<close>-th entry ever made has session id \<open>i + 1\<close> (up to wrap-around).
\<close>

definition registry_wf :: "registry \<Rightarrow> heap \<Rightarrow> bool" where
  "registry_wf r s \<longleftrightarrow>
     dm_wf (clients r)
     \<and> (\<forall>k e. dm_get (clients r) k = Some e \<longrightarrow>
          e < length (clients_heap s) \<and> ce_client_id (clients_heap s ! e) = k
          \<and> k \<notin> set RESERVED_SUBDOMAINS)
     \<and> next_session r = word_of_nat (Suc (length (clients_heap s)))
     \<and> (\<forall>e < length (clients_heap s).
          ce_session_id (clients_heap s ! e) = word_of_nat (Suc e)
          \<and> ce_handle (clients_heap s ! e) < length (tasks s))"

lemma registry_wf_new: "clients_heap s = [] \<Longrightarrow> registry_wf registry_new s"
  by (simp add: registry_wf_def registry_new_def dm_wf_intros)

lemma registry_get_new: "registry_get registry_new k = None"
  by (simp add: registry_get_def registry_new_def)

lemma handle_abort_simps [simp]:
  "clients_heap (handle_abort h s) = clients_heap s" "activity (handle_abort h s) = activity s"
  "missed (handle_abort h s) = missed s" "clock (handle_abort h s) = clock s"
  "length (tasks (handle_abort h s)) = length (tasks s)"
  by (simp_all add: handle_abort_def)

lemma update_metrics_simps [simp]:
  "tasks (update_metrics e f s) = tasks s" "activity (update_metrics e f s) = activity s"
  "missed (update_metrics e f s) = missed s" "clock (update_metrics e f s) = clock s"
  "length (clients_heap (update_metrics e f s)) = length (clients_heap s)"
  "ce_client_id (clients_heap (update_metrics e f s) ! i) = ce_client_id (clients_heap s ! i)"
  "ce_session_id (clients_heap (update_metrics e f s) ! i) = ce_session_id (clients_heap s ! i)"
  "ce_handle (clients_heap (update_metrics e f s) ! i) = ce_handle (clients_heap s ! i)"
  "ce_last_activity (clients_heap (update_metrics e f s) ! i) = ce_last_activity (clients_heap s ! i)"
  "ce_missed_heartbeats (clients_heap (update_metrics e f s) ! i)
     = ce_missed_heartbeats (clients_heap s ! i)"
  "ce_supports_heartbeat (clients_heap (update_metrics e f s) ! i)
     = ce_supports_heartbeat (clients_heap s ! i)"
  by (cases "e < length (clients_heap s)"; cases "i = e";
      simp add: update_metrics_def list_update_beyond)+

lemma touch_simps [simp]:
  "tasks (touch e s) = tasks s" "clients_heap (touch e s) = clients_heap s"
  "missed (touch e s) = missed s" "clock (touch e s) = clock s"
  "length (activity (touch e s)) = length (activity s)"
  by (auto simp: touch_def Let_def split: option.split)

lemma registry_wf_alloc [wf_intros]:
  assumes "registry_wf r s" "register_alloc c h hb la mh r s = (res, r', s')" "h < length (tasks s)"
  shows "registry_wf r' s'"
  using assms
  by (auto simp: registry_wf_def register_alloc_def Let_def nth_append less_Suc_eq split: if_splits)

lemma registry_wf_insert [wf_intros]:
  assumes "registry_wf r s" "register_insert e r s = (b, r', s')" "e < length (clients_heap s)"
    "ce_client_id (clients_heap s ! e) \<notin> set RESERVED_SUBDOMAINS"
  shows "registry_wf r' s'"
  using assms
  by (auto simp: registry_wf_def register_insert_def Let_def dm.get_put
      split: option.splits if_splits)

lemma registry_wf_unregister [wf_intros]:
  "registry_wf r s \<Longrightarrow> registry_wf (snd (unregister c sid s r)) s"
  by (auto simp: registry_wf_def unregister_def Let_def dm.get_remove_if split: if_splits)

lemma registry_wf_update_metrics [wf_intros]:
  "registry_wf r s \<Longrightarrow> registry_wf r (update_metrics e f s)"
  by (simp add: registry_wf_def)

lemma registry_wf_touch [wf_intros]: "registry_wf r s \<Longrightarrow> registry_wf r (touch e s)"
  by (simp add: registry_wf_def)

lemma session_id_inject:
  assumes "registry_wf r s" "length (clients_heap s) < 2 ^ 64"
    "d < length (clients_heap s)" "e < length (clients_heap s)"
    "ce_session_id (clients_heap s ! d) = ce_session_id (clients_heap s ! e)"
  shows "d = e"
proof -
  have "(word_of_nat (Suc d) :: u64) = word_of_nat (Suc e)"
    using assms by (auto simp: registry_wf_def)
  moreover have "Suc d < 2 ^ 64" "Suc e < 2 ^ 64"
    using assms(2-4) by auto
  ultimately have "Suc d = Suc e" by (metis unat_word_of_nat64)
  then show ?thesis by simp
qed

section \<open>The contract\<close>

text \<open>
  What the rest of the server relies on, over states \<open>'r\<close> and session ids \<open>'i\<close>: \<open>current\<close>
  is the session a client id leads to. A registration makes its new session the current one and
  touches no other id; an unregistration removes the session it names, and nothing else.
\<close>

locale session_table =
  fixes current :: "'r \<Rightarrow> string \<Rightarrow> 'i option"
    and enter :: "string \<Rightarrow> 'r \<Rightarrow> 'r"
    and leave :: "string \<Rightarrow> 'i \<Rightarrow> 'r \<Rightarrow> 'r"
    and fresh :: "'r \<Rightarrow> 'i"
    and may_enter :: "string \<Rightarrow> 'r \<Rightarrow> bool"
    and wf :: "'r \<Rightarrow> bool"
  assumes wf_enter: "wf r \<Longrightarrow> may_enter c r \<Longrightarrow> wf (enter c r)"
    and wf_leave: "wf r \<Longrightarrow> wf (leave c i r)"
    and current_enter: "wf r \<Longrightarrow> may_enter c r \<Longrightarrow>
      current (enter c r) k = (if k = c then Some (fresh r) else current r k)"
    and current_leave: "wf r \<Longrightarrow>
      current (leave c i r) k = (if k = c \<and> current r c = Some i then None else current r k)"
    and fresh_unused: "wf r \<Longrightarrow> may_enter c r \<Longrightarrow> current r k \<noteq> Some (fresh r)"
begin

lemma stale_leave:
  assumes "wf r" "may_enter c r" "current r c = Some i"
  shows "current (leave c i (enter c r)) k = current (enter c r) k"
proof -
  have "fresh r \<noteq> i" using fresh_unused [OF assms(1,2), of c] assms(3) by auto
  then show ?thesis
    using assms by (auto simp: current_leave current_enter wf_enter)
qed

lemma enter_leave:
  assumes "wf r" "may_enter c r"
  shows "current (leave c (fresh r) (enter c r)) k = (if k = c then None else current r k)"
  using assms by (simp add: current_leave current_enter wf_enter)

lemma other_client:
  assumes "wf r" "may_enter c r" "k \<noteq> c"
  shows "current (enter c r) k = current r k" "current (leave c i r) k = current r k"
  using assms by (simp_all add: current_enter current_leave)

end

text \<open>The model's registry with its heap, seen as such a table.\<close>

type_synonym registry_state = "registry \<times> heap"

definition current_session :: "registry_state \<Rightarrow> string \<Rightarrow> u64 option" where
  "current_session rs k =
     map_option (\<lambda>e. ce_session_id (clients_heap (snd rs) ! e)) (registry_get (fst rs) k)"

definition rs_wf :: "registry_state \<Rightarrow> bool" where
  "rs_wf rs \<longleftrightarrow> registry_wf (fst rs) (snd rs)"

text \<open>An id that is not reserved, a handle that exists, and fewer than \<open>2^64 - 1\<close> sessions so
  far, so that the counter has not wrapped.\<close>

definition may_register :: "nat \<Rightarrow> string \<Rightarrow> registry_state \<Rightarrow> bool" where
  "may_register h c rs \<longleftrightarrow> c \<notin> set RESERVED_SUBDOMAINS \<and> h < length (tasks (snd rs))
     \<and> Suc (length (clients_heap (snd rs))) < 2 ^ 64"

definition do_register :: "nat \<Rightarrow> bool \<Rightarrow> nat \<Rightarrow> nat \<Rightarrow> string \<Rightarrow> registry_state \<Rightarrow> registry_state" where
  "do_register h hb la mh c rs = snd (register c h hb la mh (fst rs) (snd rs))"

definition do_unregister :: "string \<Rightarrow> u64 \<Rightarrow> registry_state \<Rightarrow> registry_state" where
  "do_unregister c sid rs = (snd (unregister c sid (snd rs) (fst rs)), snd rs)"

lemma register_Inr:
  assumes "register c h hb la mh r s = (Inr (e, replaced), r', s')"
  shows "c \<notin> set RESERVED_SUBDOMAINS" "e = length (clients_heap s)"
    "clients r' = dm_put c e (clients r)" "next_session r' = next_session r + 1"
    "replaced \<longleftrightarrow> registry_get r c \<noteq> None"
    "length (tasks s') = length (tasks s)" "length (clients_heap s') = Suc (length (clients_heap s))"
    "ce_session_id (clients_heap s' ! e) = next_session r" "ce_client_id (clients_heap s' ! e) = c"
    "i < length (clients_heap s) \<Longrightarrow> clients_heap s' ! i = clients_heap s ! i"
  using assms
  by (auto simp: register_def register_alloc_def register_insert_def registry_get_def Let_def
      nth_append split: if_splits option.splits)

lemma registry_wf_register [wf_intros]:
  assumes "registry_wf r s" "h < length (tasks s)"
  shows "registry_wf (fst (snd (register c h hb la mh r s))) (snd (snd (register c h hb la mh r s)))"
proof (cases "register_alloc c h hb la mh r s")
  case (fields res r1 s1)
  show ?thesis
  proof (cases res)
    case (Inl e)
    with fields assms(1) show ?thesis
      by (auto simp: register_def register_alloc_def Let_def split: if_splits)
  next
    case (Inr e)
    have "registry_wf r1 s1" using registry_wf_alloc [OF assms(1) fields assms(2)] .
    moreover have "e < length (clients_heap s1)"
      "ce_client_id (clients_heap s1 ! e) \<notin> set RESERVED_SUBDOMAINS"
      using fields Inr by (auto simp: register_alloc_def Let_def split: if_splits)
    ultimately show ?thesis
      using registry_wf_insert [of r1 s1 e] fields Inr
      by (cases "register_insert e r1 s1") (simp add: register_def)
  qed
qed

lemma do_register_simps:
  assumes "may_register h c rs"
  obtains r' s' replaced where
    "register c h hb la mh (fst rs) (snd rs) = (Inr (length (clients_heap (snd rs)), replaced), r', s')"
    "do_register h hb la mh c rs = (r', s')"
  using assms
  by (cases "register c h hb la mh (fst rs) (snd rs)")
     (auto simp: may_register_def do_register_def register_def register_alloc_def Let_def
        split: prod.splits)

lemma current_do_register:
  assumes "rs_wf rs" "may_register h c rs"
  shows "current_session (do_register h hb la mh c rs) k =
    (if k = c then Some (next_session (fst rs)) else current_session rs k)"
proof -
  obtain r' s' replaced where
    reg: "register c h hb la mh (fst rs) (snd rs) = (Inr (length (clients_heap (snd rs)), replaced), r', s')"
    and d: "do_register h hb la mh c rs = (r', s')"
    by (rule do_register_simps [OF assms(2)])
  note R = register_Inr [OF reg]
  have "registry_get (fst rs) k = Some e \<Longrightarrow> e < length (clients_heap (snd rs))" for e
    using assms(1) by (auto simp: rs_wf_def registry_wf_def registry_get_def)
  then show ?thesis
    using R(3,8,10) assms(1)
    by (cases "registry_get (fst rs) k")
       (auto simp: d current_session_def registry_get_def dm.get_put rs_wf_def registry_wf_def)
qed

lemma current_do_unregister:
  "rs_wf rs \<Longrightarrow> current_session (do_unregister c i rs) k =
     (if k = c \<and> current_session rs c = Some i then None else current_session rs k)"
  by (auto simp: rs_wf_def registry_wf_def current_session_def do_unregister_def unregister_def
      registry_get_def Let_def dm.get_remove_if)

lemma next_session_unused:
  assumes "rs_wf rs" "Suc (length (clients_heap (snd rs))) < 2 ^ 64"
  shows "current_session rs k \<noteq> Some (next_session (fst rs))"
proof
  assume "current_session rs k = Some (next_session (fst rs))"
  then obtain e where g: "dm_get (clients (fst rs)) k = Some e"
    "ce_session_id (clients_heap (snd rs) ! e) = next_session (fst rs)"
    by (auto simp: current_session_def registry_get_def)
  with assms(1) have e: "e < length (clients_heap (snd rs))"
    by (auto simp: rs_wf_def registry_wf_def)
  moreover have "(word_of_nat e :: u64) = word_of_nat (length (clients_heap (snd rs)))"
    using g(2) e assms(1) by (auto simp: rs_wf_def registry_wf_def)
  ultimately have "e = length (clients_heap (snd rs))"
    using assms(2) unat_word_of_nat64 [of e] unat_word_of_nat64 [of "length (clients_heap (snd rs))"]
    by simp
  with e show False by simp
qed

interpretation reg_table: session_table current_session "do_register h hb la mh" do_unregister
    "\<lambda>rs. next_session (fst rs)" "may_register h" rs_wf
  for h hb la mh
proof unfold_locales
  fix rs c k
  assume wf: "rs_wf rs" and may: "may_register h c rs"
  then show "current_session (do_register h hb la mh c rs) k =
      (if k = c then Some (next_session (fst rs)) else current_session rs k)"
    by (rule current_do_register)
  show "rs_wf (do_register h hb la mh c rs)"
    using wf may registry_wf_register
    by (simp add: rs_wf_def do_register_def may_register_def)
  show "current_session rs k \<noteq> Some (next_session (fst rs))"
    using wf may next_session_unused by (simp add: may_register_def)
next
  fix rs c i k
  assume wf: "rs_wf rs"
  then show "current_session (do_unregister c i rs) k =
      (if k = c \<and> current_session rs c = Some i then None else current_session rs k)"
    by (rule current_do_unregister)
  show "rs_wf (do_unregister c i rs)"
    using wf registry_wf_unregister by (simp add: rs_wf_def do_unregister_def)
qed

section \<open>Properties\<close>

text \<open>C20: Last writer wins. Registering an id that is not reserved always succeeds; afterwards
  the id leads to the new session, every other id leads where it led before, \<open>replaced\<close> says
  whether there was a session before, and exactly that session's driver is told to abort.\<close>

theorem register_takes_over:
  assumes "registry_wf r s" and "c \<notin> set RESERVED_SUBDOMAINS" and "h < length (tasks s)"
  shows "\<exists>e replaced r' s'. register c h hb la mh r s = (Inr (e, replaced), r', s')
    \<and> registry_get r' c = Some e \<and> ce_session_id (clients_heap s' ! e) = next_session r
    \<and> (\<forall>k. k \<noteq> c \<longrightarrow> registry_get r' k = registry_get r k)
    \<and> (replaced \<longleftrightarrow> registry_get r c \<noteq> None)
    \<and> (\<forall>t < length (tasks s). abort_requested (tasks s' ! t) \<longleftrightarrow>
         abort_requested (tasks s ! t)
         \<or> (\<exists>old. registry_get r c = Some old \<and> ce_handle (clients_heap s ! old) = t))"
proof -
  obtain e replaced r' s' where reg: "register c h hb la mh r s = (Inr (e, replaced), r', s')"
    using assms(2) by (cases "register c h hb la mh r s")
      (auto simp: register_def register_alloc_def Let_def split: prod.splits)
  note R = register_Inr [OF reg]
  have wf: "dm_wf (clients r)" using assms(1) by (simp add: registry_wf_def)
  have old: "old < length (clients_heap s)" if "registry_get r c = Some old" for old
    using assms(1) that by (auto simp: registry_wf_def registry_get_def)
  have "tasks s' = (case registry_get r c of None \<Rightarrow> tasks s
     | Some old \<Rightarrow> (tasks s)[ce_handle (clients_heap s ! old) :=
         (tasks s ! ce_handle (clients_heap s ! old))\<lparr>abort_requested := True\<rparr>])"
    using reg old
    by (auto simp: register_def register_alloc_def register_insert_def registry_get_def Let_def
        handle_abort_def nth_append split: if_splits option.splits)
  then have "\<forall>t < length (tasks s). abort_requested (tasks s' ! t) \<longleftrightarrow>
         abort_requested (tasks s ! t)
         \<or> (\<exists>old. registry_get r c = Some old \<and> ce_handle (clients_heap s ! old) = t)"
    by (auto simp: nth_update_at split: option.splits)
  then show ?thesis
    using reg R wf by (auto simp: registry_get_def dm.get_put)
qed

abbreviation demo_heap :: heap where
  "demo_heap \<equiv> \<lparr>clock = 0,
     tasks = [\<lparr>receiver_alive = True, abort_requested = False\<rparr>,
              \<lparr>receiver_alive = True, abort_requested = False\<rparr>],
     activity = [Some 0, Some 0], missed = [0, 0], clients_heap = []\<rparr>"

lemma demo_registry_wf: "registry_wf registry_new demo_heap"
  by (rule registry_wf_new) simp

theorem register_takes_over_witness:
  "\<exists>e replaced r' s'. register ''app'' 0 True 0 0 registry_new demo_heap = (Inr (e, replaced), r', s')
    \<and> registry_get r' ''app'' = Some e"
  using register_takes_over [OF demo_registry_wf, of "''app''" 0 True 0 0]
  by (auto simp: RESERVED_SUBDOMAINS_def)

text \<open>C3: The registry implements a map from client ids to session ids: \<open>register\<close> is an
  update at the id, \<open>unregister\<close> removes the id exactly if it still leads to the given session,
  and its result says whether it did.\<close>

theorem registry_refines_map:
  assumes "rs_wf rs" and "may_register h c rs"
  shows "current_session (do_register h hb la mh c rs)
           = (current_session rs)(c \<mapsto> next_session (fst rs))
    \<and> current_session (do_unregister d i rs)
           = (if current_session rs d = Some i then (current_session rs)(d := None)
              else current_session rs)
    \<and> (fst (unregister d i (snd rs) (fst rs)) \<longleftrightarrow> current_session rs d = Some i)"
proof -
  have "fst (unregister d i (snd rs) (fst rs)) \<longleftrightarrow> current_session rs d = Some i"
    by (simp add: unregister_def current_session_def registry_get_def Let_def split: option.split)
  then show ?thesis
    using reg_table.current_enter [OF assms] reg_table.current_leave [OF assms(1)]
    by (auto simp: fun_eq_iff)
qed

lemma demo_may_register: "may_register 0 ''app'' (registry_new, demo_heap)"
  by (simp add: may_register_def RESERVED_SUBDOMAINS_def)

lemma demo_rs_wf: "rs_wf (registry_new, demo_heap)"
  by (simp add: rs_wf_def demo_registry_wf)

theorem registry_refines_map_witness:
  "current_session (do_register 0 True 0 0 ''app'' (registry_new, demo_heap))
     = (current_session (registry_new, demo_heap))(''app'' \<mapsto> 1)"
  using registry_refines_map [OF demo_rs_wf demo_may_register, of True 0 0]
  by (simp add: registry_new_def)

text \<open>A session that was taken over cannot evict its replacement: when the old session's
  task unregisters itself after the takeover, nothing changes.\<close>

theorem stale_unregister_is_noop:
  assumes "rs_wf rs" and "may_register h c rs" and "current_session rs c = Some i"
  shows "current_session (do_unregister c i (do_register h hb la mh c rs))
    = current_session (do_register h hb la mh c rs)"
  using reg_table.stale_leave [OF assms] by (auto simp: fun_eq_iff)

theorem stale_unregister_is_noop_witness:
  "current_session (do_unregister ''app'' 1 (do_register 1 True 1 1 ''app''
      (do_register 0 True 0 0 ''app'' (registry_new, demo_heap)))) ''app'' = Some 2"
proof -
  let ?r1 = "do_register 0 True 0 0 ''app'' (registry_new, demo_heap)"
  have wf: "rs_wf ?r1" by (rule reg_table.wf_enter [OF demo_rs_wf demo_may_register])
  have may: "may_register 1 ''app'' ?r1"
    by (simp add: may_register_def do_register_def register_def register_alloc_def
        register_insert_def RESERVED_SUBDOMAINS_def registry_new_def)
  have c: "current_session ?r1 ''app'' = Some 1"
    using reg_table.current_enter [OF demo_rs_wf demo_may_register, of True 0 0 "''app''"]
    by (simp add: registry_new_def)
  have n: "next_session (fst ?r1) = 2"
    by (simp add: do_register_def register_def register_alloc_def register_insert_def
        RESERVED_SUBDOMAINS_def registry_new_def)
  show ?thesis
    unfolding stale_unregister_is_noop [OF wf may c, of True 1 1]
    using reg_table.current_enter [OF wf may, of True 1 1 "''app''"] n by simp
qed

text \<open>The dashboard's list shows every registered client exactly once and nothing else,
  and \<open>count\<close> is the number of registered ids.\<close>

theorem list_shows_registry:
  assumes "registry_wf r s"
  shows "distinct (map ci_client_id (registry_list s r))
    \<and> set (map ci_client_id (registry_list s r)) = dom (registry_get r)
    \<and> registry_count r = card (dom (registry_get r))"
proof -
  have wf: "dm_wf (clients r)"
    and id: "\<And>k e. (k, e) \<in> set (clients r) \<Longrightarrow> ce_client_id (clients_heap s ! e) = k"
    using assms dm.set_entries [of "clients r"] by (auto simp: registry_wf_def)
  have "map ci_client_id (registry_list s r) = map fst (clients r)"
    using id by (auto simp: registry_list_def client_info_of_def Let_def)
  moreover have g: "registry_get r = dm_get (clients r)"
    by (simp add: registry_get_def fun_eq_iff)
  moreover have "set (map fst (clients r)) = dom (registry_get r)"
    unfolding g dm_get_def by (simp add: dom_map_of_conv_image_fst)
  moreover have "registry_count r = card (dom (registry_get r))"
    unfolding g registry_count_def by (rule dm.length_entries [OF wf])
  ultimately show ?thesis
    using dm.entries_distinct [OF wf] by simp
qed

theorem list_shows_registry_witness:
  "registry_count registry_new = card (dom (registry_get registry_new))"
  using list_shows_registry [OF demo_registry_wf] by blast

end
