(* ===== verification/Driver.thy ===== *)
theory Driver
  imports Protocol
begin

text \<open>
  The yamux driver task and its handle, the first part of \<open>zo-tunnel-server/src/server.rs\<close>
  (\<open>spawn_yamux_driver\<close>, \<open>YamuxHandle\<close>).

  The task is a \<open>select!\<close> loop. Its local variables, and the two cells it shares with the
  registry entry, are the record; each branch of the \<open>select!\<close> is an event with the branch's
  precondition as its guard, and \<open>drive\<close> is one turn of the loop (\<open>None\<close>: the branch is
  disabled). The order in which \<open>select!\<close> picks branches is not fixed: a run is any list of
  enabled events. \<open>yamux\<close> appears as the outcomes of its polls.
\<close>

section \<open>State\<close>

definition MAX_MISSED :: u32 where
  "MAX_MISSED = 5"

definition heartbeat_deadline :: nat where
  "heartbeat_deadline = from_secs 10"

record driver =
  dr_running :: bool
  dr_pending_open :: "nat option"
  dr_want_hb_stream :: bool
  dr_hb_in_flight :: bool
  dr_missed :: u32
  dr_last_activity :: "instant option"
  dr_hb_tasks :: nat
  dr_hb_done :: "bool list"
  dr_replies :: "(nat \<times> bool) list"

text \<open>A reply channel is a number; \<open>dr_replies\<close> lists what was sent on the channels, with
  \<open>True\<close> for a stream and \<open>False\<close> for an error. \<open>dr_hb_tasks\<close> counts the spawned
  heartbeat tasks that have not reported, \<open>dr_hb_done\<close> is their result channel.\<close>

definition driver_new :: "instant \<Rightarrow> driver" where
  "driver_new now = \<lparr>dr_running = True, dr_pending_open = None, dr_want_hb_stream = False,
     dr_hb_in_flight = False, dr_missed = 0, dr_last_activity = Some now, dr_hb_tasks = 0,
     dr_hb_done = [], dr_replies = []\<rparr>"

datatype inbound = InboundStream | InboundError | InboundClosed

datatype drive_event =
  Inbound inbound
| Outbound bool
| Command "nat option"
| HeartbeatTick
| HeartbeatTask bool
| HeartbeatDone instant
| Cancelled

section \<open>The heartbeat probe\<close>

text \<open>The spawned task: write the marker, read one byte, close, all within ten seconds. The byte
  that comes back is not looked at.\<close>

record probe_io =
  pi_write_ok :: bool
  pi_read :: "u8 option"
  pi_close_ok :: bool
  pi_duration :: nat

definition heartbeat_probe :: "probe_io \<Rightarrow> bool" where
  "heartbeat_probe p \<longleftrightarrow>
     pi_duration p < heartbeat_deadline \<and> pi_write_ok p \<and> pi_read p \<noteq> None \<and> pi_close_ok p"

section \<open>One turn of the loop\<close>

definition stop :: "driver \<Rightarrow> driver" where
  "stop d = d\<lparr>dr_running := False\<rparr>"

text \<open>A missed heartbeat: \<open>fetch_add\<close>, and the loop ends at the limit.\<close>

definition miss :: "driver \<Rightarrow> driver" where
  "miss d =
     (let n = dr_missed d + 1; d' = d\<lparr>dr_missed := n\<rparr>
      in if n \<ge> MAX_MISSED then stop d' else d')"

definition on_outbound_ok :: "driver \<Rightarrow> driver" where
  "on_outbound_ok d =
     (case dr_pending_open d of
        Some reply \<Rightarrow> d\<lparr>dr_pending_open := None, dr_replies := dr_replies d @ [(reply, True)]\<rparr>
      | None \<Rightarrow>
          if dr_want_hb_stream d
          then d\<lparr>dr_want_hb_stream := False, dr_hb_in_flight := True,
                 dr_hb_tasks := Suc (dr_hb_tasks d)\<rparr>
          else d)"

definition on_outbound_err :: "driver \<Rightarrow> driver" where
  "on_outbound_err d =
     (let d1 = (case dr_pending_open d of
                  Some reply \<Rightarrow>
                    d\<lparr>dr_pending_open := None, dr_replies := dr_replies d @ [(reply, False)]\<rparr>
                | None \<Rightarrow> d)
      in if dr_want_hb_stream d1 then miss (d1\<lparr>dr_want_hb_stream := False\<rparr>) else d1)"

definition on_heartbeat_done :: "bool \<Rightarrow> instant \<Rightarrow> driver \<Rightarrow> driver" where
  "on_heartbeat_done ok now d =
     (let d1 = d\<lparr>dr_hb_in_flight := False\<rparr>
      in if ok
         then d1\<lparr>dr_missed := 0,
                 dr_last_activity := (case dr_last_activity d of None \<Rightarrow> None | Some _ \<Rightarrow> Some now)\<rparr>
         else miss d1)"

fun drive :: "bool \<Rightarrow> driver \<Rightarrow> drive_event \<Rightarrow> driver option" where
  "drive hb d (Inbound i) =
     (if \<not> dr_running d then None
      else case i of
        InboundStream \<Rightarrow> Some d
      | InboundError \<Rightarrow> Some (stop d)
      | InboundClosed \<Rightarrow> Some (stop d))"
| "drive hb d (Outbound ok) =
     (if \<not> dr_running d \<or> \<not> (dr_pending_open d \<noteq> None \<or> dr_want_hb_stream d) then None
      else Some (if ok then on_outbound_ok d else on_outbound_err d))"
| "drive hb d (Command c) =
     (if \<not> dr_running d \<or> dr_pending_open d \<noteq> None then None
      else case c of
        Some reply \<Rightarrow> Some (d\<lparr>dr_pending_open := Some reply\<rparr>)
      | None \<Rightarrow> Some (stop d))"
| "drive hb d HeartbeatTick =
     (if \<not> dr_running d \<or> \<not> (hb \<and> \<not> dr_hb_in_flight d \<and> \<not> dr_want_hb_stream d) then None
      else Some (d\<lparr>dr_want_hb_stream := True\<rparr>))"
| "drive hb d (HeartbeatTask ok) =
     (if dr_hb_tasks d = 0 then None
      else Some (d\<lparr>dr_hb_tasks := dr_hb_tasks d - 1, dr_hb_done := dr_hb_done d @ [ok]\<rparr>))"
| "drive hb d (HeartbeatDone now) =
     (case dr_hb_done d of
        [] \<Rightarrow> None
      | ok # rest \<Rightarrow>
          if \<not> dr_running d then None
          else Some (on_heartbeat_done ok now (d\<lparr>dr_hb_done := rest\<rparr>)))"
| "drive hb d Cancelled = (if \<not> dr_running d then None else Some (stop d))"

text \<open>
  \<open>YamuxHandle::open_stream\<close>: the outcome of sending the command and of waiting for the reply.
\<close>

datatype open_error = DriverGone | DriverDropped | YamuxOpen

definition open_stream :: "bool \<Rightarrow> bool option \<Rightarrow> (open_error, unit) res" where
  "open_stream sent reply =
     (if \<not> sent then Inl DriverGone
      else case reply of
        None \<Rightarrow> Inl DriverDropped
      | Some True \<Rightarrow> Inr ()
      | Some False \<Rightarrow> Inl YamuxOpen)"

section \<open>Invariants\<close>

lemmas drive_defs [step_defs] =
  on_outbound_ok_def on_outbound_err_def on_heartbeat_done_def miss_def stop_def

definition driver_inv :: "bool \<Rightarrow> driver \<Rightarrow> bool" where
  "driver_inv hb d \<longleftrightarrow>
     dr_missed d \<le> MAX_MISSED
     \<and> (dr_running d \<longrightarrow> dr_missed d < MAX_MISSED)
     \<and> \<not> (dr_want_hb_stream d \<and> dr_hb_in_flight d)
     \<and> dr_hb_tasks d + length (dr_hb_done d) = (if dr_hb_in_flight d then 1 else 0)
     \<and> (\<not> hb \<longrightarrow> \<not> dr_want_hb_stream d \<and> \<not> dr_hb_in_flight d \<and> dr_missed d = 0)"

lemma driver_inv_new: "driver_inv hb (driver_new now)"
  by (simp add: driver_inv_def driver_new_def MAX_MISSED_def)

lemma unat_missed_Suc: "(n :: u32) < MAX_MISSED \<Longrightarrow> unat (n + 1) = Suc (unat n)"
proof -
  assume "n < MAX_MISSED"
  then have "Suc (unat n) < 2 ^ 32" by (simp add: word_less_nat_alt MAX_MISSED_def)
  then show ?thesis by (simp add: unat_word_ariths)
qed

lemma missed_Suc: "(n :: u32) < MAX_MISSED \<Longrightarrow> n + 1 \<le> MAX_MISSED"
  using unat_missed_Suc [of n] by (simp add: word_le_nat_alt word_less_nat_alt)

lemma driver_inv_miss:
  assumes "dr_missed d < MAX_MISSED" "\<not> (dr_want_hb_stream d \<and> dr_hb_in_flight d)" "hb"
    "dr_hb_tasks d + length (dr_hb_done d) = (if dr_hb_in_flight d then 1 else 0)"
  shows "driver_inv hb (miss d)"
  using assms missed_Suc [OF assms(1)]
  by (auto simp: driver_inv_def miss_def stop_def Let_def not_le)

lemma driver_inv_step: "driver_inv hb d \<Longrightarrow> drive hb d e = Some d' \<Longrightarrow> driver_inv hb d'"
proof (cases e)
  case (Outbound ok)
  assume inv: "driver_inv hb d" and st: "drive hb d e = Some d'"
  then have run: "dr_missed d < MAX_MISSED"
    using Outbound by (auto simp: driver_inv_def split: if_splits)
  show ?thesis
  proof (cases ok)
    case True
    then show ?thesis using inv st Outbound
      by (auto simp: driver_inv_def on_outbound_ok_def split: if_splits option.splits)
  next
    case False
    define d1 where "d1 = (case dr_pending_open d of
                  Some reply \<Rightarrow>
                    d\<lparr>dr_pending_open := None, dr_replies := dr_replies d @ [(reply, False)]\<rparr>
                | None \<Rightarrow> d)"
    have eq: "dr_missed d1 = dr_missed d" "dr_want_hb_stream d1 = dr_want_hb_stream d"
      "dr_hb_in_flight d1 = dr_hb_in_flight d" "dr_hb_tasks d1 = dr_hb_tasks d"
      "dr_hb_done d1 = dr_hb_done d" "dr_running d1 = dr_running d"
      by (auto simp: d1_def split: option.split)
    then have inv1: "driver_inv hb d1" using inv by (simp add: driver_inv_def)
    have d': "d' = (if dr_want_hb_stream d1 then miss (d1\<lparr>dr_want_hb_stream := False\<rparr>) else d1)"
      using st Outbound False by (simp add: on_outbound_err_def d1_def [symmetric] split: if_splits)
    show ?thesis
    proof (cases "dr_want_hb_stream d1")
      case True
      then have hb using inv1 by (auto simp: driver_inv_def)
      then show ?thesis unfolding d' if_P [OF True]
        using inv1 True run eq by (intro driver_inv_miss) (auto simp: driver_inv_def)
    qed (use d' inv1 in simp)
  qed
next
  case (HeartbeatDone now)
  assume inv: "driver_inv hb d" and st: "drive hb d e = Some d'"
  from st HeartbeatDone obtain ok rest where q: "dr_hb_done d = ok # rest" and run: "dr_running d"
    and d': "d' = on_heartbeat_done ok now (d\<lparr>dr_hb_done := rest\<rparr>)"
    by (auto split: list.splits if_splits)
  have f: "dr_hb_in_flight d" "rest = []" "dr_hb_tasks d = 0" "hb" "dr_missed d < MAX_MISSED"
    "\<not> dr_want_hb_stream d"
    using inv q run by (auto simp: driver_inv_def split: if_splits)
  show ?thesis
  proof (cases ok)
    case True
    then show ?thesis using d' f by (simp add: driver_inv_def on_heartbeat_done_def MAX_MISSED_def)
  next
    case False
    then show ?thesis using d' f by (simp add: on_heartbeat_done_def) (intro driver_inv_miss; simp)
  qed
next
  case (HeartbeatTask ok)
  assume "driver_inv hb d" and "drive hb d e = Some d'"
  then show ?thesis
    using HeartbeatTask by (cases "dr_hb_done d") (auto simp: driver_inv_def split: if_splits)
qed (auto simp: driver_inv_def stop_def split: if_splits inbound.splits option.splits)

lemma driver_inv_run:
  "run_steps (drive hb) (driver_new now) es = Some d \<Longrightarrow> driver_inv hb d"
  using run_steps_invariant [of "drive hb" _ _ _ "driver_inv hb"] driver_inv_new driver_inv_step
  by blast

section \<open>Accounting for replies and probes\<close>

text \<open>The reply channels of the commands that were accepted, in order, and the outcome of each
  heartbeat probe that came to an end (\<open>True\<close> for a pong), oldest first.\<close>

fun accepted :: "drive_event list \<Rightarrow> nat list" where
  "accepted [] = []"
| "accepted (Command (Some reply) # es) = reply # accepted es"
| "accepted (_ # es) = accepted es"

definition probe_outcome :: "driver \<Rightarrow> drive_event \<Rightarrow> bool list" where
  "probe_outcome d e =
     (case e of
        Outbound False \<Rightarrow> if dr_want_hb_stream d then [False] else []
      | HeartbeatDone _ \<Rightarrow> (case dr_hb_done d of [] \<Rightarrow> [] | ok # _ \<Rightarrow> [ok])
      | _ \<Rightarrow> [])"

fun probe_outcomes :: "bool \<Rightarrow> driver \<Rightarrow> drive_event list \<Rightarrow> bool list" where
  "probe_outcomes hb d [] = []"
| "probe_outcomes hb d (e # es) =
     probe_outcome d e
       @ (case drive hb d e of None \<Rightarrow> [] | Some d' \<Rightarrow> probe_outcomes hb d' es)"

text \<open>The failures since the last success.\<close>

definition trailing_failures :: "bool list \<Rightarrow> nat" where
  "trailing_failures os = length (takeWhile Not (rev os))"

lemma trailing_failures_snoc [simp]:
  "trailing_failures [] = 0"
  "trailing_failures (os @ [ok]) = (if ok then 0 else Suc (trailing_failures os))"
  by (simp_all add: trailing_failures_def)

abbreviation pending_list :: "driver \<Rightarrow> nat list" where
  "pending_list d \<equiv> (case dr_pending_open d of None \<Rightarrow> [] | Some r \<Rightarrow> [r])"

lemma miss_simps [simp]:
  "dr_replies (miss d) = dr_replies d" "dr_pending_open (miss d) = dr_pending_open d"
  "dr_missed (miss d) = dr_missed d + 1"
  "dr_running (miss d) \<longleftrightarrow> dr_running d \<and> \<not> dr_missed d + 1 \<ge> MAX_MISSED"
  by (auto simp: miss_def stop_def Let_def)

lemma stop_simps [simp]:
  "dr_replies (stop d) = dr_replies d" "dr_pending_open (stop d) = dr_pending_open d"
  "dr_missed (stop d) = dr_missed d" "dr_running (stop d) = False"
  by (simp_all add: stop_def)

lemma drive_replies:
  assumes "drive hb d e = Some d'"
  shows "map fst (dr_replies d') @ pending_list d'
    = map fst (dr_replies d) @ pending_list d @ accepted [e]"
  using assms
  by (cases "(hb, d, e)" rule: drive.cases)
     (auto simp: on_outbound_ok_def on_outbound_err_def on_heartbeat_done_def Let_def
        split: if_splits option.splits inbound.splits list.splits)

lemma accepted_Cons: "accepted (e # es) = accepted [e] @ accepted es"
proof (cases e)
  case (Command c)
  then show ?thesis by (cases c) simp_all
qed simp_all

lemma run_replies:
  assumes "run_steps (drive hb) d es = Some d'"
  shows "map fst (dr_replies d') @ pending_list d'
    = map fst (dr_replies d) @ pending_list d @ accepted es"
  using assms
proof (induction es arbitrary: d)
  case (Cons e es)
  from Cons.prems obtain d1 where d1: "drive hb d e = Some d1" "run_steps (drive hb) d1 es = Some d'"
    by (auto split: option.splits)
  show ?case
    using Cons.IH [OF d1(2)] drive_replies [OF d1(1)] by (simp add: accepted_Cons [of e es])
qed simp

lemma drive_missed:
  assumes "drive hb d e = Some d'" "driver_inv hb d"
    and "unat (dr_missed d) = trailing_failures os"
  shows "unat (dr_missed d') = trailing_failures (os @ probe_outcome d e)"
proof -
  have u: "unat (dr_missed d + 1) = Suc (unat (dr_missed d))" if "dr_running d"
    using that assms(2) by (auto simp: driver_inv_def intro: unat_missed_Suc)
  show ?thesis
    using assms(1,3) u
    by (cases "(hb, d, e)" rule: drive.cases)
       (auto simp: probe_outcome_def on_outbound_ok_def on_outbound_err_def on_heartbeat_done_def
          Let_def split: if_splits option.splits inbound.splits list.splits bool.splits)
qed

lemma run_missed:
  assumes "run_steps (drive hb) d es = Some d'" "driver_inv hb d"
    and "unat (dr_missed d) = trailing_failures os"
  shows "unat (dr_missed d') = trailing_failures (os @ probe_outcomes hb d es)"
  using assms
proof (induction es arbitrary: d os)
  case (Cons e es)
  from Cons.prems(1) obtain d1 where d1: "drive hb d e = Some d1" "run_steps (drive hb) d1 es = Some d'"
    by (auto split: option.splits)
  show ?case
    using Cons.IH [OF d1(2) driver_inv_step [OF Cons.prems(2) d1(1)]
        drive_missed [OF d1(1) Cons.prems(2,3)]] d1(1) by simp
qed simp

lemma drive_stops:
  assumes "drive hb d e = Some d'" "dr_running d" "\<not> dr_running d'"
  shows "e \<in> {Inbound InboundError, Inbound InboundClosed, Command None, Cancelled}
    \<or> probe_outcome d e = [False] \<and> dr_missed d' = dr_missed d + 1 \<and> dr_missed d' \<ge> MAX_MISSED"
  using assms
  by (cases "(hb, d, e)" rule: drive.cases)
     (auto simp: probe_outcome_def on_outbound_ok_def on_outbound_err_def on_heartbeat_done_def
        Let_def split: if_splits option.splits inbound.splits list.splits bool.splits)

section \<open>Properties\<close>


abbreviation failing_probe :: "drive_event list" where
  "failing_probe \<equiv> [HeartbeatTick, Outbound True, HeartbeatTask False, HeartbeatDone 7]"




text \<open>At most one heartbeat is under way at any time, counting the wish for a stream, the
  probe task and its unread result; and a client that did not announce heartbeat support is never
  probed and never counted as missing a heartbeat.\<close>

theorem driver_single_probe:
  assumes "run_steps (drive hb) (driver_new now) es = Some d"
  shows "(if dr_want_hb_stream d then 1 else 0) + dr_hb_tasks d + length (dr_hb_done d) \<le> 1
    \<and> (\<not> hb \<longrightarrow> dr_hb_tasks d = 0 \<and> dr_hb_done d = [] \<and> dr_missed d = 0)"
  using driver_inv_run [OF assms] by (auto simp: driver_inv_def split: if_splits)

theorem driver_single_probe_witness:
  "\<exists>d. run_steps (drive True) (driver_new 0) [HeartbeatTick, Outbound True] = Some d
    \<and> dr_hb_tasks d = 1 \<and> \<not> dr_want_hb_stream d"
proof -
  let ?es = "[HeartbeatTick, Outbound True]"
  have "map_option dr_hb_tasks (run_steps (drive True) (driver_new 0) ?es) = Some 1" by code_simp
  then obtain d where d: "run_steps (drive True) (driver_new 0) ?es = Some d" "dr_hb_tasks d = 1"
    by blast
  show ?thesis using driver_single_probe [OF d(1)] d by (auto split: if_splits)
qed

text \<open>The loop of a client without heartbeats ends only because the connection ended, every
  handle was dropped, or the task was aborted: never because of traffic, of failed opens or of
  time.\<close>

theorem driver_without_heartbeat_stays:
  assumes "run_steps (drive False) (driver_new now) es = Some d" and "dr_running d"
    and "drive False d e = Some d'"
    and "e \<notin> {Inbound InboundError, Inbound InboundClosed, Command None, Cancelled}"
  shows "dr_running d'"
proof (rule ccontr)
  assume "\<not> dr_running d'"
  then have "dr_missed d' \<ge> MAX_MISSED"
    using drive_stops [OF assms(3,2)] assms(4) by blast
  moreover have "driver_inv False d'"
    by (rule driver_inv_step [OF driver_inv_run [OF assms(1)] assms(3)])
  ultimately show False by (auto simp: driver_inv_def MAX_MISSED_def)
qed

theorem driver_without_heartbeat_stays_witness:
  "\<exists>d'. drive False (driver_new 0) (Inbound InboundStream) = Some d' \<and> dr_running d'"
  using driver_without_heartbeat_stays [of 0 "[]" "driver_new 0" "Inbound InboundStream"]
  by (simp add: driver_new_def)

end
