(* ===== verification/Proxy.thy ===== *)
theory Proxy
  imports Registry Metrics
begin

text \<open>
  The public HTTP proxy, \<open>zo-tunnel-server/src/proxy.rs\<close>: how a request is routed, the request
  that is forwarded, and \<open>handle_proxy_request\<close> cut at its await points.

  URIs and header maps (\<open>hyper\<close>) and the streams and responses of a client are not code of
  this repository. The operations the proxy uses of them are the fields of \<open>http_lib\<close>, an
  argument of the definitions: \<open>header_str h k\<close> is the first value of header \<open>k\<close> if it is
  text, \<open>header_insert\<close> replaces all values of a header, \<open>header_value_ok\<close> is
  \<open>HeaderValue::from_str\<close> succeeding. The outcomes of awaits are the events of \<open>proxy_step\<close>.
\<close>

section \<open>Requests and responses\<close>

record ('u, 'h) http_lib =
  uri_path :: "'u \<Rightarrow> string"
  uri_query :: "'u \<Rightarrow> string option"
  uri_parse :: "string \<Rightarrow> 'u option"
  header_str :: "'h \<Rightarrow> string \<Rightarrow> string option"
  header_insert :: "'h \<Rightarrow> string \<Rightarrow> string \<Rightarrow> 'h"
  header_value_ok :: "string \<Rightarrow> bool"

record ('u, 'h) http_request =
  rq_method :: string
  rq_uri :: 'u
  rq_headers :: 'h
  rq_body :: bytes

record http_response =
  rs_status :: nat
  rs_headers :: "(string \<times> string) list"
  rs_body :: string

datatype 'r reply = Local http_response | Forwarded 'r

definition error_response :: "nat \<Rightarrow> string \<Rightarrow> http_response" where
  "error_response status msg =
     \<lparr>rs_status = status,
      rs_headers = [(''content-type'', ''application/json''), (''x-powered-by'', ''zo-tunnel'')],
      rs_body = ''{'' @ dquote @ ''error'' @ dquote @ '':'' @ dquote @ msg @ dquote @ '',''
        @ dquote @ ''status'' @ dquote @ '':'' @ show_nat status @ ''}''\<rparr>"

section \<open>Routing\<close>

definition host_no_port :: "string \<Rightarrow> string" where
  "host_no_port host = (case split_on CHR '':'' host of h # _ \<Rightarrow> h | [] \<Rightarrow> host)"

definition extract_routing ::
  "('u, 'h) http_lib \<Rightarrow> ('u, 'h) http_request \<Rightarrow> string \<Rightarrow> (string \<times> string) option" where
  "extract_routing L req domn =
     (case header_str L (rq_headers req) ''host'' of
        None \<Rightarrow> None
      | Some host \<Rightarrow>
          let hnp = host_no_port host; suffix = ''.'' @ domn in
          if ends_with suffix hnp then
            (case strip_suffix suffix hnp of
               None \<Rightarrow> None
             | Some client_id \<Rightarrow>
                 if client_id = [] then None else Some (client_id, uri_path L (rq_uri req)))
          else None)"

section \<open>The forwarded request\<close>

definition build_forwarded_request ::
  "('u, 'h) http_lib \<Rightarrow> ('u, 'h) http_request \<Rightarrow> string \<Rightarrow> string
     \<Rightarrow> ('u, 'h) http_request option" where
  "build_forwarded_request L req path client_id =
     (let query = (case uri_query L (rq_uri req) of Some q \<Rightarrow> ''?'' @ q | None \<Rightarrow> [])
      in case uri_parse L (path @ query) of
           None \<Rightarrow> None
         | Some new_uri \<Rightarrow>
             let h1 = (if header_value_ok L client_id
                       then header_insert L (rq_headers req) ''x-zo-tunnel-client'' client_id
                       else rq_headers req)
             in Some (req\<lparr>rq_uri := new_uri,
                          rq_headers := header_insert L h1 ''connection'' ''close''\<rparr>))"

section \<open>The handler, from await to await\<close>

text \<open>The state the handlers of all requests share.\<close>

record server_state =
  sv_registry :: registry
  sv_heap :: heap
  sv_metrics :: metrics
  sv_limiter :: rate_limiter

definition server_state_new :: "instant \<Rightarrow> u32 \<Rightarrow> server_state" where
  "server_state_new now rps =
     \<lparr>sv_registry = registry_new,
      sv_heap = \<lparr>clock = now, tasks = [], activity = [], missed = [], clients_heap = []\<rparr>,
      sv_metrics = metrics_new now, sv_limiter = rate_limiter_new rps\<rparr>"

datatype wait = AwaitOpen | AwaitMarker | AwaitHandshake | AwaitResponse

record ('u, 'h) in_flight =
  fl_client :: string
  fl_path :: string
  fl_entry :: nat
  fl_request :: "('u, 'h) http_request"

text \<open>A request is waiting at an await, answered, or abandoned: its future was dropped at an
  await because the public connection went away.\<close>

datatype ('u, 'h, 'r) flight =
  Waiting wait "('u, 'h) in_flight"
| Answered "'r reply"
| Abandoned "('u, 'h) in_flight"

definition bad_gateway :: "string \<Rightarrow> string \<Rightarrow> http_response" where
  "bad_gateway client_id what =
     error_response 502 (''Tunnel '' @ squote @ client_id @ squote @ what)"

definition count_request :: "server_state \<Rightarrow> server_state" where
  "count_request s =
     s\<lparr>sv_metrics := (sv_metrics s)\<lparr>total_requests := total_requests (sv_metrics s) + 1\<rparr>\<rparr>"

definition acquire :: "nat \<Rightarrow> server_state \<Rightarrow> server_state" where
  "acquire e s =
     s\<lparr>sv_heap := update_metrics e (\<lambda>m. m\<lparr>cm_requests := cm_requests m + 1,
                     cm_active_streams := cm_active_streams m + 1\<rparr>) (sv_heap s),
       sv_metrics := (sv_metrics s)\<lparr>active_connections := active_connections (sv_metrics s) + 1\<rparr>\<rparr>"

definition release :: "nat \<Rightarrow> server_state \<Rightarrow> server_state" where
  "release e s =
     s\<lparr>sv_heap := update_metrics e (\<lambda>m. m\<lparr>cm_active_streams := cm_active_streams m - 1\<rparr>) (sv_heap s),
       sv_metrics := (sv_metrics s)\<lparr>active_connections := active_connections (sv_metrics s) - 1\<rparr>\<rparr>"

definition no_route_response :: "string \<Rightarrow> client_info list \<Rightarrow> http_response" where
  "no_route_response domn cs =
     (if cs = [] then error_response 503 ''No tunnel clients connected''
      else error_response 404 (''Invalid subdomain. Available tunnels: ''
             @ join_with '', '' (map (\<lambda>c. ci_client_id c @ ''.'' @ domn) cs)))"

definition proxy_begin :: "('u, 'h) http_lib \<Rightarrow> string \<Rightarrow> ('u, 'h) http_request
    \<Rightarrow> server_state \<Rightarrow> ('u, 'h, 'r) flight \<times> server_state" where
  "proxy_begin L domn req s0 =
     (let s = count_request s0 in
      case extract_routing L req domn of
        None \<Rightarrow>
          (Answered (Local (no_route_response domn (registry_list (sv_heap s) (sv_registry s)))), s)
      | Some (client_id, path) \<Rightarrow>
          (case check (clock (sv_heap s)) client_id (sv_limiter s) of
             (False, rl) \<Rightarrow>
               (Answered (Local (error_response 429 ''Rate limit exceeded'')),
                s\<lparr>sv_limiter := rl,
                  sv_metrics := (sv_metrics s)\<lparr>rate_limited := rate_limited (sv_metrics s) + 1\<rparr>\<rparr>)
           | (True, rl) \<Rightarrow>
               let s1 = s\<lparr>sv_limiter := rl\<rparr> in
               (case registry_get (sv_registry s1) client_id of
                  None \<Rightarrow> (Answered (Local (bad_gateway client_id '' not found or offline'')), s1)
                | Some e \<Rightarrow>
                    (Waiting AwaitOpen \<lparr>fl_client = client_id, fl_path = path, fl_entry = e,
                       fl_request = req\<rparr>, acquire e s1))))"

text \<open>What the proxy writes on a fresh stream before the HTTP exchange.\<close>

definition proxy_marker :: "bool \<Rightarrow> bytes" where
  "proxy_marker supports_hb = (if supports_hb then [STREAM_TYPE_PROXY] else [])"

definition after_open :: "bool \<Rightarrow> ('u, 'h) in_flight \<Rightarrow> server_state
    \<Rightarrow> ('u, 'h, 'r) flight \<times> server_state" where
  "after_open ok fl s =
     (if \<not> ok then (Answered (Local (bad_gateway (fl_client fl) '' connection error'')),
                     release (fl_entry fl) s)
      else if proxy_marker (ce_supports_heartbeat (clients_heap (sv_heap s) ! fl_entry fl)) \<noteq> []
      then (Waiting AwaitMarker fl, s)
      else (Waiting AwaitHandshake fl, s))"

definition after_marker :: "bool \<Rightarrow> ('u, 'h) in_flight \<Rightarrow> server_state
    \<Rightarrow> ('u, 'h, 'r) flight \<times> server_state" where
  "after_marker ok fl s =
     (if \<not> ok then (Answered (Local (bad_gateway (fl_client fl) '' connection error'')),
                     release (fl_entry fl) s)
      else (Waiting AwaitHandshake fl, s))"

definition after_handshake :: "('u, 'h) http_lib \<Rightarrow> bool \<Rightarrow> ('u, 'h) in_flight \<Rightarrow> server_state
    \<Rightarrow> ('u, 'h, 'r) flight \<times> server_state" where
  "after_handshake L ok fl s =
     (if \<not> ok then (Answered (Local (error_response 502 ''Tunnel HTTP handshake failed'')),
                     release (fl_entry fl) s)
      else case build_forwarded_request L (fl_request fl) (fl_path fl) (fl_client fl) of
             None \<Rightarrow> (Answered (Local (error_response 500 ''Request forwarding error'')),
                       release (fl_entry fl) s)
           | Some fwd \<Rightarrow> (Waiting AwaitResponse (fl\<lparr>fl_request := fwd\<rparr>), s))"

definition after_response :: "'r option \<Rightarrow> ('u, 'h) in_flight \<Rightarrow> server_state
    \<Rightarrow> ('u, 'h, 'r) flight \<times> server_state" where
  "after_response resp fl s =
     (case resp of
        None \<Rightarrow> (Answered (Local (bad_gateway (fl_client fl) '' did not respond'')),
                  release (fl_entry fl) s)
      | Some r \<Rightarrow>
          let s1 = release (fl_entry fl) s
          in (Answered (Forwarded r), s1\<lparr>sv_heap := touch (fl_entry fl) (sv_heap s1)\<rparr>))"

section \<open>Many requests\<close>

text \<open>All requests so far, by number, over the shared state.\<close>

record ('u, 'h, 'r) proxy_sys =
  px_state :: server_state
  px_flights :: "('u, 'h, 'r) flight list"

datatype ('u, 'h, 'r) proxy_event =
  Arrive "('u, 'h) http_request"
| Opened nat bool
| Marked nat bool
| Handshaken nat bool
| Responded nat "'r option"
| Cancel nat

definition resume :: "nat \<Rightarrow> wait \<Rightarrow> (('u, 'h) in_flight \<Rightarrow> server_state
    \<Rightarrow> ('u, 'h, 'r) flight \<times> server_state) \<Rightarrow> ('u, 'h, 'r) proxy_sys
    \<Rightarrow> ('u, 'h, 'r) proxy_sys option" where
  "resume i w f p =
     (if i < length (px_flights p) then
        (case px_flights p ! i of
           Waiting w' fl \<Rightarrow>
             if w' = w then
               (case f fl (px_state p) of
                  (fl', s') \<Rightarrow> Some \<lparr>px_state = s', px_flights = (px_flights p)[i := fl']\<rparr>)
             else None
         | _ \<Rightarrow> None)
      else None)"

fun proxy_step :: "('u, 'h) http_lib \<Rightarrow> string \<Rightarrow> ('u, 'h, 'r) proxy_sys
    \<Rightarrow> ('u, 'h, 'r) proxy_event \<Rightarrow> ('u, 'h, 'r) proxy_sys option" where
  "proxy_step L domn p (Arrive req) =
     (case proxy_begin L domn req (px_state p) of
        (fl, s) \<Rightarrow> Some \<lparr>px_state = s, px_flights = px_flights p @ [fl]\<rparr>)"
| "proxy_step L domn p (Opened i ok) = resume i AwaitOpen (after_open ok) p"
| "proxy_step L domn p (Marked i ok) = resume i AwaitMarker (after_marker ok) p"
| "proxy_step L domn p (Handshaken i ok) = resume i AwaitHandshake (after_handshake L ok) p"
| "proxy_step L domn p (Responded i r) = resume i AwaitResponse (after_response r) p"
| "proxy_step L domn p (Cancel i) =
     (if i < length (px_flights p) then
        (case px_flights p ! i of
           Waiting w fl \<Rightarrow> Some (p\<lparr>px_flights := (px_flights p)[i := Abandoned fl]\<rparr>)
         | _ \<Rightarrow> None)
      else None)"

section \<open>The gauges\<close>

text \<open>The entry whose gauge a request has raised and not lowered again.\<close>

fun holds_gauge :: "('u, 'h, 'r) flight \<Rightarrow> nat option" where
  "holds_gauge (Waiting w fl) = Some (fl_entry fl)"
| "holds_gauge (Abandoned fl) = Some (fl_entry fl)"
| "holds_gauge (Answered r) = None"

definition open_requests :: "('u, 'h, 'r) proxy_sys \<Rightarrow> nat" where
  "open_requests p = length (filter (\<lambda>f. holds_gauge f \<noteq> None) (px_flights p))"

definition open_requests_of :: "('u, 'h, 'r) proxy_sys \<Rightarrow> nat \<Rightarrow> nat" where
  "open_requests_of p e = length (filter (\<lambda>f. holds_gauge f = Some e) (px_flights p))"

definition gauge_inv :: "('u, 'h, 'r) proxy_sys \<Rightarrow> bool" where
  "gauge_inv p \<longleftrightarrow>
     registry_wf (sv_registry (px_state p)) (sv_heap (px_state p))
     \<and> active_connections (sv_metrics (px_state p)) = word_of_nat (open_requests p)
     \<and> (\<forall>e < length (clients_heap (sv_heap (px_state p))).
          cm_active_streams (ce_metrics (clients_heap (sv_heap (px_state p)) ! e))
            = word_of_nat (open_requests_of p e))
     \<and> (\<forall>f \<in> set (px_flights p). \<forall>e. holds_gauge f = Some e
          \<longrightarrow> e < length (clients_heap (sv_heap (px_state p))))"

lemma update_metrics_at:
  "i < length (clients_heap s) \<Longrightarrow> ce_metrics (clients_heap (update_metrics e f s) ! i)
     = (if i = e then f (ce_metrics (clients_heap s ! i)) else ce_metrics (clients_heap s ! i))"
  by (auto simp: update_metrics_def nth_list_update)

lemma word_of_nat_diff1: "Suc m = n \<Longrightarrow> (word_of_nat n :: u64) - 1 = word_of_nat m"
  by auto

lemma word_of_nat_diff_if:
  "m + (if c then 1 else 0) = n \<Longrightarrow> (word_of_nat n :: u64) - (if c then 1 else 0) = word_of_nat m"
  by auto

text \<open>Every continuation either waits on, with the state unchanged, or answers and lowers the
  gauges it had raised.\<close>

definition settles :: "(('u, 'h) in_flight \<Rightarrow> server_state
    \<Rightarrow> ('u, 'h, 'r) flight \<times> server_state) \<Rightarrow> bool" where
  "settles f \<longleftrightarrow> (\<forall>fl s. case f fl s of (fl', s') \<Rightarrow>
     (\<exists>w fl2. fl' = Waiting w fl2 \<and> fl_entry fl2 = fl_entry fl \<and> s' = s)
     \<or> (\<exists>r. fl' = Answered r \<and> (s' = release (fl_entry fl) s
          \<or> s' = (release (fl_entry fl) s)\<lparr>sv_heap := touch (fl_entry fl)
                    (sv_heap (release (fl_entry fl) s))\<rparr>)))"

lemma settlesD:
  assumes "settles f"
  shows "case f fl s of (fl', s') \<Rightarrow>
     (\<exists>w fl2. fl' = Waiting w fl2 \<and> fl_entry fl2 = fl_entry fl \<and> s' = s)
     \<or> (\<exists>r. fl' = Answered r \<and> (s' = release (fl_entry fl) s
          \<or> s' = (release (fl_entry fl) s)\<lparr>sv_heap := touch (fl_entry fl)
                    (sv_heap (release (fl_entry fl) s))\<rparr>))"
  using assms [unfolded settles_def, rule_format, of fl s] .

lemma settles_after:
  "settles (after_open ok)" "settles (after_marker ok)" "settles (after_handshake L ok)"
  "settles (after_response resp)"
  by (auto simp: settles_def after_open_def after_marker_def after_handshake_def
      after_response_def Let_def split: option.split)

lemma gauge_inv_resume:
  assumes inv: "gauge_inv p" and f: "settles f" and st: "resume i w f p = Some p'"
  shows "gauge_inv p'"
proof -
  let ?s = "px_state p"
  from st obtain fl fl' s' where i: "i < length (px_flights p)" "px_flights p ! i = Waiting w fl"
    and s': "f fl ?s = (fl', s')" and p': "p' = \<lparr>px_state = s', px_flights = (px_flights p)[i := fl']\<rparr>"
    by (auto simp: resume_def split: if_splits flight.splits prod.splits)
  have e: "fl_entry fl < length (clients_heap (sv_heap ?s))"
    using inv i nth_mem [OF i(1)] by (auto simp: gauge_inv_def)
  have mem: "\<forall>g \<in> set ((px_flights p)[i := fl']). g = fl' \<or> g \<in> set (px_flights p)"
    using set_update_subset_insert [of "px_flights p" i fl'] by auto
  have count: "\<And>P. length (filter P ((px_flights p)[i := fl'])) + (if P (Waiting w fl) then 1 else 0)
      = length (filter P (px_flights p)) + (if P fl' then 1 else 0)"
    using length_filter_update [OF i(1)] i(2) by metis
  consider
      (wait) w2 fl2 where "fl' = Waiting w2 fl2" "fl_entry fl2 = fl_entry fl" "s' = ?s"
    | (answer) r where "fl' = Answered r"
        "s' = release (fl_entry fl) ?s \<or> s' = (release (fl_entry fl) ?s)\<lparr>sv_heap :=
           touch (fl_entry fl) (sv_heap (release (fl_entry fl) ?s))\<rparr>"
    using settlesD [OF f, of fl ?s] unfolding s' by auto
  then show ?thesis
  proof cases
    case wait
    have "open_requests p' = open_requests p"
      using count [of "\<lambda>f. holds_gauge f \<noteq> None"] wait by (simp add: open_requests_def p')
    moreover have "open_requests_of p' e = open_requests_of p e" for e
      using count [of "\<lambda>f. holds_gauge f = Some e"] wait
      by (simp add: open_requests_of_def p' split: if_splits)
    ultimately show ?thesis
      using inv wait e mem by (auto simp: gauge_inv_def p')
  next
    case answer
    have "Suc (open_requests p') = open_requests p"
      using count [of "\<lambda>f. holds_gauge f \<noteq> None"] answer(1) by (simp add: open_requests_def p')
    moreover have "open_requests_of p' e + (if e = fl_entry fl then 1 else 0) = open_requests_of p e"
      for e
      using count [of "\<lambda>f. holds_gauge f = Some e"] answer(1)
      by (auto simp: open_requests_of_def p')
    ultimately have n: "(word_of_nat (open_requests p) :: u64) - 1 = word_of_nat (open_requests p')"
      "\<And>e. (word_of_nat (open_requests_of p e) :: u64) - (if e = fl_entry fl then 1 else 0)
        = word_of_nat (open_requests_of p' e)"
      by (simp add: word_of_nat_diff1, intro word_of_nat_diff_if)
    let ?r = "release (fl_entry fl) ?s"
    have s: "clients_heap (sv_heap s') = clients_heap (sv_heap ?r)" "sv_metrics s' = sv_metrics ?r"
      "sv_registry s' = sv_registry ?s"
      using answer(2) by (auto simp: release_def)
    have wf: "registry_wf (sv_registry s') (sv_heap s')"
      using answer(2) inv by (auto simp: release_def gauge_inv_def
          intro!: registry_wf_update_metrics registry_wf_touch)
    have len: "length (clients_heap (sv_heap ?r)) = length (clients_heap (sv_heap ?s))"
      by (simp add: release_def)
    have active: "active_connections (sv_metrics ?r) = word_of_nat (open_requests p')"
      using inv n(1) by (simp add: release_def gauge_inv_def)
    have streams: "cm_active_streams (ce_metrics (clients_heap (sv_heap ?r) ! e))
        = word_of_nat (open_requests_of p' e)" if "e < length (clients_heap (sv_heap ?s))" for e
      using inv that n(2) [of e] by (auto simp: release_def gauge_inv_def update_metrics_at)
    have old: "\<forall>g \<in> set ((px_flights p)[i := fl']). \<forall>e. holds_gauge g = Some e
        \<longrightarrow> e < length (clients_heap (sv_heap ?s))"
      using inv mem answer(1) by (auto simp: gauge_inv_def)
    show ?thesis
      unfolding gauge_inv_def using wf active streams old by (simp add: p' s len [simplified])
  qed
qed

text \<open>What a request does before its first await. Only a routed request that the limiter lets
  through and whose client is registered goes on; it raises both gauges.\<close>

lemma proxy_begin_cases:
  fixes s :: server_state
  assumes "proxy_begin L domn req s = (fl, s')"
  obtains
    (unrouted) "extract_routing L req domn = None"
      "fl = Answered (Local (no_route_response domn (registry_list (sv_heap s) (sv_registry s))))"
      "s' = count_request s"
  | (limited) c path where "extract_routing L req domn = Some (c, path)"
      "\<not> fst (check (clock (sv_heap s)) c (sv_limiter s))"
      "fl = Answered (Local (error_response 429 ''Rate limit exceeded''))"
      "sv_heap s' = sv_heap s" "sv_registry s' = sv_registry s"
      "active_connections (sv_metrics s') = active_connections (sv_metrics s)"
  | (unknown) c path where "extract_routing L req domn = Some (c, path)"
      "fst (check (clock (sv_heap s)) c (sv_limiter s))" "registry_get (sv_registry s) c = None"
      "fl = Answered (Local (bad_gateway c '' not found or offline''))"
      "sv_heap s' = sv_heap s" "sv_registry s' = sv_registry s"
      "active_connections (sv_metrics s') = active_connections (sv_metrics s)"
  | (going) c path e where "extract_routing L req domn = Some (c, path)"
      "fst (check (clock (sv_heap s)) c (sv_limiter s))" "registry_get (sv_registry s) c = Some e"
      "fl = Waiting AwaitOpen \<lparr>fl_client = c, fl_path = path, fl_entry = e, fl_request = req\<rparr>"
      "s' = acquire e ((count_request s)\<lparr>sv_limiter :=
              snd (check (clock (sv_heap s)) c (sv_limiter s))\<rparr>)"
proof (cases "extract_routing L req domn")
  case None
  then show thesis
    using assms unrouted by (simp add: proxy_begin_def Let_def count_request_def)
next
  case (Some cp)
  obtain c path where cp: "cp = (c, path)" by (cases cp)
  obtain ok rl where ch: "check (clock (sv_heap s)) c (sv_limiter s) = (ok, rl)"
    by (cases "check (clock (sv_heap s)) c (sv_limiter s)")
  show thesis
  proof (cases ok)
    case False
    then show thesis
      using assms Some cp ch limited [of c path]
      by (auto simp: proxy_begin_def Let_def count_request_def)
  next
    case True
    then show thesis
      using assms Some cp ch unknown [of c path] going [of c path]
      by (cases "registry_get (sv_registry s) c")
         (auto simp: proxy_begin_def Let_def count_request_def)
  qed
qed

lemma gauge_inv_begin:
  assumes inv: "gauge_inv p" and st: "proxy_begin L domn req (px_state p) = (fl, s')"
  shows "gauge_inv \<lparr>px_state = s', px_flights = px_flights p @ [fl]\<rparr>"
  using st
proof (cases rule: proxy_begin_cases)
  case (going c path e)
  have e: "e < length (clients_heap (sv_heap (px_state p)))"
    using inv going(3) by (auto simp: gauge_inv_def registry_wf_def registry_get_def)
  have wf: "registry_wf (sv_registry s') (sv_heap s')"
    using inv going(5)
    by (auto simp: gauge_inv_def acquire_def count_request_def intro!: registry_wf_update_metrics)
  show ?thesis
    unfolding gauge_inv_def proxy_sys.simps
  proof (intro conjI)
    show "registry_wf (sv_registry s') (sv_heap s')" by (rule wf)
    show "active_connections (sv_metrics s')
        = word_of_nat (open_requests \<lparr>px_state = s', px_flights = px_flights p @ [fl]\<rparr>)"
      using inv going(4,5)
      by (simp add: gauge_inv_def open_requests_def acquire_def count_request_def)
  next
    show "\<forall>d < length (clients_heap (sv_heap s')).
        cm_active_streams (ce_metrics (clients_heap (sv_heap s') ! d))
          = word_of_nat (open_requests_of \<lparr>px_state = s', px_flights = px_flights p @ [fl]\<rparr> d)"
      using inv going(4,5)
      by (simp add: gauge_inv_def open_requests_of_def acquire_def count_request_def
          update_metrics_at)
  next
    show "\<forall>f \<in> set (px_flights p @ [fl]). \<forall>d. holds_gauge f = Some d
        \<longrightarrow> d < length (clients_heap (sv_heap s'))"
      using inv going(4,5) e by (auto simp: gauge_inv_def acquire_def count_request_def)
  qed
qed (use inv in \<open>auto simp: gauge_inv_def open_requests_def open_requests_of_def count_request_def\<close>)

lemma gauge_inv_cancel:
  assumes inv: "gauge_inv p" and st: "proxy_step L domn p (Cancel i) = Some p'"
  shows "gauge_inv p'"
proof -
  from st obtain w fl where i: "i < length (px_flights p)" "px_flights p ! i = Waiting w fl"
    and p': "p' = p\<lparr>px_flights := (px_flights p)[i := Abandoned fl]\<rparr>"
    by (auto split: if_splits flight.splits)
  have same: "length (filter (\<lambda>f. P (holds_gauge f)) ((px_flights p)[i := Abandoned fl]))
      = length (filter (\<lambda>f. P (holds_gauge f)) (px_flights p))" for P
    using length_filter_update [OF i(1), of "\<lambda>f. P (holds_gauge f)" "Abandoned fl"] i(2)
    by (simp split: if_splits)
  have "\<forall>f \<in> set ((px_flights p)[i := Abandoned fl]). f = Abandoned fl \<or> f \<in> set (px_flights p)"
    using set_update_subset_insert [of "px_flights p" i "Abandoned fl"] by auto
  moreover have "\<forall>e. holds_gauge (Abandoned fl) = Some e
      \<longrightarrow> e < length (clients_heap (sv_heap (px_state p)))"
    using inv i nth_mem [OF i(1)] by (auto simp: gauge_inv_def)
  ultimately show ?thesis
    using inv same [of "\<lambda>x. x \<noteq> None"] same [of "\<lambda>x. x = Some _"]
    by (auto simp: gauge_inv_def p' open_requests_def open_requests_of_def)
qed

lemma gauge_inv_step: "gauge_inv p \<Longrightarrow> proxy_step L domn p ev = Some p' \<Longrightarrow> gauge_inv p'"
proof (cases ev)
  case (Cancel i)
  assume "gauge_inv p" "proxy_step L domn p ev = Some p'"
  then show ?thesis using gauge_inv_cancel unfolding Cancel by blast
next
  case (Arrive req)
  assume "gauge_inv p" "proxy_step L domn p ev = Some p'"
  then show ?thesis using gauge_inv_begin unfolding Arrive by (auto split: prod.splits)
qed (auto intro: gauge_inv_resume settles_after)

lemma gauge_inv_run:
  "run_steps (proxy_step L domn) p es = Some p' \<Longrightarrow> gauge_inv p \<Longrightarrow> gauge_inv p'"
  using run_steps_invariant [of "proxy_step L domn" p es p' gauge_inv] gauge_inv_step by blast

section \<open>Lemmas\<close>

lemma host_no_port_takeWhile: "host_no_port host = takeWhile (\<lambda>x. x \<noteq> CHR '':'') host"
  using hd_split_on [of "CHR '':''" host] split_on_not_Nil [of "CHR '':''" host]
  by (auto simp: host_no_port_def split: list.splits)

lemma host_no_port_id [simp]:
  "CHR '':'' \<notin> set h \<Longrightarrow> host_no_port h = h" "CHR '':'' \<notin> set h \<Longrightarrow> host_no_port (h @ CHR '':'' # p) = h"
  by (auto simp: host_no_port_takeWhile takeWhile_append takeWhile_eq_all_conv)

lemma extract_routing_Some:
  "extract_routing L req domn = Some (c, path) \<longleftrightarrow>
     (\<exists>host. header_str L (rq_headers req) ''host'' = Some host
        \<and> host_no_port host = c @ ''.'' @ domn)
     \<and> c \<noteq> [] \<and> path = uri_path L (rq_uri req)"
  by (auto simp: extract_routing_def Let_def strip_suffix_eq_Some ends_with_iff split: option.splits)

text \<open>Laws of the library: \<open>HeaderMap::insert\<close> leaves other headers alone and a header it
  set to plain text reads back; the URI parsed from the path and query of a URI has that path and
  query.\<close>

definition http_laws :: "('u, 'h) http_lib \<Rightarrow> bool" where
  "http_laws L \<longleftrightarrow>
     (\<forall>h k v k'. k' \<noteq> k \<longrightarrow> header_str L (header_insert L h k v) k' = header_str L h k')
     \<and> (\<forall>h k. header_str L (header_insert L h k ''close'') k = Some ''close'')
     \<and> (\<forall>u u'. uri_parse L (uri_path L u @ (case uri_query L u of Some q \<Rightarrow> ''?'' @ q | None \<Rightarrow> []))
            = Some u' \<longrightarrow> uri_path L u' = uri_path L u \<and> uri_query L u' = uri_query L u)"

lemma http_lawsD:
  assumes "http_laws L"
  shows "k' \<noteq> k \<Longrightarrow> header_str L (header_insert L h k v) k' = header_str L h k'"
    "header_str L (header_insert L h k ''close'') k = Some ''close''"
    "uri_parse L (uri_path L u @ (case uri_query L u of Some q \<Rightarrow> ''?'' @ q | None \<Rightarrow> [])) = Some u'
      \<Longrightarrow> uri_path L u' = uri_path L u \<and> uri_query L u' = uri_query L u"
  using assms unfolding http_laws_def by blast+

lemma build_forwarded_request_frame:
  assumes L: "http_laws L"
    and fwd: "build_forwarded_request L req (uri_path L (rq_uri req)) c = Some req'"
  shows "uri_path L (rq_uri req') = uri_path L (rq_uri req)"
    "uri_query L (rq_uri req') = uri_query L (rq_uri req)"
    "k \<notin> {''connection'', ''x-zo-tunnel-client''}
      \<Longrightarrow> header_str L (rq_headers req') k = header_str L (rq_headers req) k"
    "header_str L (rq_headers req') ''connection'' = Some ''close''"
    "rq_method req' = rq_method req" "rq_body req' = rq_body req"
proof -
  from fwd obtain u where u: "uri_parse L (uri_path L (rq_uri req)
      @ (case uri_query L (rq_uri req) of Some q \<Rightarrow> ''?'' @ q | None \<Rightarrow> [])) = Some u"
    and req': "req' = req\<lparr>rq_uri := u, rq_headers := header_insert L
        (if header_value_ok L c then header_insert L (rq_headers req) ''x-zo-tunnel-client'' c
         else rq_headers req) ''connection'' ''close''\<rparr>"
    by (auto simp: build_forwarded_request_def Let_def split: option.splits)
  show "uri_path L (rq_uri req') = uri_path L (rq_uri req)"
    "uri_query L (rq_uri req') = uri_query L (rq_uri req)"
    "rq_method req' = rq_method req" "rq_body req' = rq_body req"
    "header_str L (rq_headers req') ''connection'' = Some ''close''"
    using http_lawsD(3) [OF L u] http_lawsD(2) [OF L] req' by simp_all
  show "header_str L (rq_headers req') k = header_str L (rq_headers req) k"
    if "k \<notin> {''connection'', ''x-zo-tunnel-client''}"
    using that req' http_lawsD(1) [OF L] by simp
qed

lemma extract_routing_forwarded:
  assumes L: "http_laws L" and x: "extract_routing L req domn = Some (c, path)"
    and fwd: "build_forwarded_request L req path c = Some req'"
  shows "extract_routing L req' domn = Some (c, path)"
proof -
  have path: "path = uri_path L (rq_uri req)" using x by (simp add: extract_routing_Some)
  note F = build_forwarded_request_frame [OF L fwd [unfolded path]]
  show ?thesis
    using x F(1) F(3) [of "''host''"] by (simp add: extract_routing_Some)
qed

section \<open>Requests stay with their client\<close>

fun carried :: "('u, 'h, 'r) flight \<Rightarrow> ('u, 'h) in_flight option" where
  "carried (Waiting w fl) = Some fl"
| "carried (Abandoned fl) = Some fl"
| "carried (Answered r) = None"

text \<open>A request that is in flight is with a session of the very client its \<open>Host\<close> names.\<close>

definition well_routed :: "('u, 'h) http_lib \<Rightarrow> string \<Rightarrow> server_state \<Rightarrow> ('u, 'h) in_flight \<Rightarrow> bool" where
  "well_routed L domn s fl \<longleftrightarrow>
     fl_entry fl < length (clients_heap (sv_heap s))
     \<and> ce_client_id (clients_heap (sv_heap s) ! fl_entry fl) = fl_client fl
     \<and> extract_routing L (fl_request fl) domn = Some (fl_client fl, fl_path fl)"

definition tenant_inv :: "('u, 'h) http_lib \<Rightarrow> string \<Rightarrow> ('u, 'h, 'r) proxy_sys \<Rightarrow> bool" where
  "tenant_inv L domn p \<longleftrightarrow>
     (\<forall>f \<in> set (px_flights p). \<forall>fl. carried f = Some fl \<longrightarrow> well_routed L domn (px_state p) fl)"

text \<open>The registry, the driver tasks and the identity of the session objects are the same,
  whatever the proxy does.\<close>

definition same_sessions :: "server_state \<Rightarrow> server_state \<Rightarrow> bool" where
  "same_sessions s s' \<longleftrightarrow>
     sv_registry s' = sv_registry s \<and> tasks (sv_heap s') = tasks (sv_heap s)
     \<and> clock (sv_heap s') = clock (sv_heap s)
     \<and> missed (sv_heap s') = missed (sv_heap s)
     \<and> length (activity (sv_heap s')) = length (activity (sv_heap s))
     \<and> length (clients_heap (sv_heap s')) = length (clients_heap (sv_heap s))
     \<and> (\<forall>i. ce_client_id (clients_heap (sv_heap s') ! i) = ce_client_id (clients_heap (sv_heap s) ! i)
         \<and> ce_session_id (clients_heap (sv_heap s') ! i) = ce_session_id (clients_heap (sv_heap s) ! i)
         \<and> ce_handle (clients_heap (sv_heap s') ! i) = ce_handle (clients_heap (sv_heap s) ! i)
         \<and> ce_last_activity (clients_heap (sv_heap s') ! i)
              = ce_last_activity (clients_heap (sv_heap s) ! i)
         \<and> ce_missed_heartbeats (clients_heap (sv_heap s') ! i)
              = ce_missed_heartbeats (clients_heap (sv_heap s) ! i)
         \<and> ce_supports_heartbeat (clients_heap (sv_heap s') ! i)
              = ce_supports_heartbeat (clients_heap (sv_heap s) ! i))"

lemma same_sessions_simps [simp]:
  "same_sessions s s" "same_sessions s (release e s)" "same_sessions s (acquire e s)"
  "same_sessions s (count_request s)"
  "same_sessions s ((release e s)\<lparr>sv_heap := touch e' (sv_heap (release e s))\<rparr>)"
  by (simp_all add: same_sessions_def release_def acquire_def count_request_def)

lemma well_routed_same:
  "same_sessions s s' \<Longrightarrow> well_routed L domn s' fl \<longleftrightarrow> well_routed L domn s fl"
  by (simp add: well_routed_def same_sessions_def)

definition keeps_route ::
  "('u, 'h) http_lib \<Rightarrow> string \<Rightarrow> (('u, 'h) in_flight \<Rightarrow> server_state
     \<Rightarrow> ('u, 'h, 'r) flight \<times> server_state) \<Rightarrow> bool" where
  "keeps_route L domn f \<longleftrightarrow> (\<forall>fl s. well_routed L domn s fl \<longrightarrow>
     (case f fl s of (fl', s') \<Rightarrow> same_sessions s s'
        \<and> (\<forall>fl2. carried fl' = Some fl2 \<longrightarrow> well_routed L domn s' fl2)))"

lemma keeps_route_after:
  "keeps_route L domn (after_open ok)" "keeps_route L domn (after_marker ok)"
  "keeps_route L domn (after_response resp)"
  by (auto simp: keeps_route_def after_open_def after_marker_def after_response_def Let_def
      split: option.split)

lemma keeps_route_handshake:
  assumes "http_laws L"
  shows "keeps_route L domn (after_handshake L ok)"
proof -
  have "well_routed L domn s (fl\<lparr>fl_request := fwd\<rparr>)"
    if "well_routed L domn s fl"
      "build_forwarded_request L (fl_request fl) (fl_path fl) (fl_client fl) = Some fwd" for s fl fwd
    using that extract_routing_forwarded [OF assms _ that(2)] by (simp add: well_routed_def)
  then show ?thesis
    by (auto simp: keeps_route_def after_handshake_def split: option.split)
qed

lemma tenant_inv_resume:
  assumes inv: "tenant_inv L domn p" and f: "keeps_route L domn f" and st: "resume i w f p = Some p'"
  shows "tenant_inv L domn p'"
proof -
  from st obtain fl fl' s' where i: "i < length (px_flights p)" "px_flights p ! i = Waiting w fl"
    and s': "f fl (px_state p) = (fl', s')"
    and p': "p' = \<lparr>px_state = s', px_flights = (px_flights p)[i := fl']\<rparr>"
    by (auto simp: resume_def split: if_splits flight.splits prod.splits)
  have "well_routed L domn (px_state p) fl"
    using inv i nth_mem [OF i(1)] by (auto simp: tenant_inv_def)
  then have same: "same_sessions (px_state p) s'"
    and new: "\<forall>fl2. carried fl' = Some fl2 \<longrightarrow> well_routed L domn s' fl2"
    using f [unfolded keeps_route_def, rule_format, of "px_state p" fl] s' by auto
  have "\<forall>g \<in> set ((px_flights p)[i := fl']). g = fl' \<or> g \<in> set (px_flights p)"
    using set_update_subset_insert [of "px_flights p" i fl'] by auto
  then show ?thesis
    using inv new by (auto simp: tenant_inv_def p' well_routed_same [OF same])
qed

lemma tenant_inv_step:
  fixes p :: "('u, 'h, 'r) proxy_sys"
  assumes L: "http_laws L" and inv: "tenant_inv L domn p"
    and wf: "registry_wf (sv_registry (px_state p)) (sv_heap (px_state p))"
    and st: "proxy_step L domn p ev = Some p'"
  shows "tenant_inv L domn p'"
proof (cases ev)
  case (Cancel i)
  from st Cancel obtain w fl where i: "i < length (px_flights p)" "px_flights p ! i = Waiting w fl"
    and p': "p' = p\<lparr>px_flights := (px_flights p)[i := Abandoned fl]\<rparr>"
    by (auto split: if_splits flight.splits)
  have "\<forall>f \<in> set ((px_flights p)[i := Abandoned fl]). f = Abandoned fl \<or> f \<in> set (px_flights p)"
    using set_update_subset_insert [of "px_flights p" i "Abandoned fl"] by auto
  then show ?thesis
    using inv i nth_mem [OF i(1)] by (fastforce simp: tenant_inv_def p')
next
  case (Arrive req)
  obtain fl :: "('u, 'h, 'r) flight" and s'
    where b: "proxy_begin L domn req (px_state p) = (fl, s')"
    by (rule prod.exhaust)
  then have p': "p' = \<lparr>px_state = s', px_flights = px_flights p @ [fl]\<rparr>"
    using st Arrive by simp
  from b have "same_sessions (px_state p) s'
      \<and> (\<forall>fl2. carried fl = Some fl2 \<longrightarrow> well_routed L domn (px_state p) fl2)"
  proof (cases rule: proxy_begin_cases)
    case (going c path e)
    then show ?thesis
      using wf by (auto simp: same_sessions_def acquire_def count_request_def well_routed_def
          registry_wf_def registry_get_def)
  qed (auto simp: same_sessions_def count_request_def)
  then show ?thesis
    using inv p' well_routed_same by (fastforce simp: tenant_inv_def)
qed (use st inv in \<open>auto intro: tenant_inv_resume keeps_route_after keeps_route_handshake [OF L]\<close>)

lemma same_sessions_resume:
  assumes "settles f" "resume i w f p = Some p'"
  shows "same_sessions (px_state p) (px_state p')"
proof -
  from assms(2) obtain fl fl' s' where s': "f fl (px_state p) = (fl', s')" "px_state p' = s'"
    by (auto simp: resume_def split: if_splits flight.splits prod.splits)
  then show ?thesis using settlesD [OF assms(1), of fl "px_state p"] by auto
qed

lemma same_sessions_step:
  fixes p :: "('u, 'h, 'r) proxy_sys"
  assumes "proxy_step L domn p ev = Some p'"
  shows "same_sessions (px_state p) (px_state p')"
proof (cases ev)
  case (Arrive req)
  obtain fl :: "('u, 'h, 'r) flight" and s'
    where b: "proxy_begin L domn req (px_state p) = (fl, s')"
    by (rule prod.exhaust)
  then have "px_state p' = s'" using assms Arrive by auto
  moreover from b have "same_sessions (px_state p) s'"
    by (cases rule: proxy_begin_cases) (auto simp: same_sessions_def acquire_def count_request_def)
  ultimately show ?thesis by simp
next
  case (Cancel i)
  then show ?thesis using assms by (auto split: if_splits flight.splits)
qed (use assms in \<open>auto intro: same_sessions_resume settles_after\<close>)

end
