(* ===== verification/Transitions.thy ===== *)
theory Transitions
  imports Main
begin

text \<open>
  Step relations with a growing resource. The server numbers its sessions with a machine word, so
  what holds of its states holds as long as fewer sessions were made than the word can tell apart.
  The locales say once how an invariant, and a simulation of a specification, carry over from one
  step to all runs within such a bound.
\<close>

locale bounded_machine =
  fixes start :: "'s \<Rightarrow> bool" and step :: "'s \<Rightarrow> 's \<Rightarrow> bool" and reached :: "'s \<Rightarrow> bool"
    and used :: "'s \<Rightarrow> nat" and bound :: nat
  assumes reached_from: "reached s \<Longrightarrow> \<exists>s0. start s0 \<and> step\<^sup>*\<^sup>* s0 s"
    and used_grows: "step s s' \<Longrightarrow> used s \<le> used s'"
begin

lemma used_grows_run: "step\<^sup>*\<^sup>* s s' \<Longrightarrow> used s \<le> used s'"
  by (induction rule: rtranclp_induct) (auto dest: used_grows)

end

locale bounded_invariant = bounded_machine start step reached used bound
  for start :: "'s \<Rightarrow> bool" and step reached used bound +
  fixes inv :: "'s \<Rightarrow> bool"
  assumes inv_start: "start s \<Longrightarrow> inv s"
    and inv_step: "step s s' \<Longrightarrow> inv s \<Longrightarrow> used s' < bound \<Longrightarrow> inv s'"
begin

lemma inv_run: "step\<^sup>*\<^sup>* s s' \<Longrightarrow> inv s \<Longrightarrow> used s' < bound \<Longrightarrow> inv s'"
proof (induction rule: rtranclp_induct)
  case (step y z)
  then show ?case using inv_step used_grows by (meson le_less_trans)
qed

lemma inv_reached: "reached s \<Longrightarrow> used s < bound \<Longrightarrow> inv s"
  using reached_from inv_start inv_run by blast

text \<open>A further invariant may use the first one in every step.\<close>

lemma also_reached:
  assumes "reached s" and "used s < bound" and "\<And>s. start s \<Longrightarrow> P s"
    and pres: "\<And>s s'. step s s' \<Longrightarrow> inv s \<Longrightarrow> inv s' \<Longrightarrow> P s \<Longrightarrow> P s'"
  shows "P s"
proof -
  have "P s'" if "step\<^sup>*\<^sup>* s0 s'" "start s0" "used s' < bound" for s0 s'
    using that
  proof (induction rule: rtranclp_induct)
    case base
    then show ?case using assms(3) by blast
  next
    case (step y z)
    have few: "used y < bound" using used_grows [OF step.hyps(2)] step.prems(2) by simp
    then have "inv y" "inv z"
      using inv_run [OF step.hyps(1) inv_start] inv_step [OF step.hyps(2)] step.prems by blast+
    then show ?case using pres [OF step.hyps(2)] step.IH step.prems(1) few by blast
  qed
  then show ?thesis using reached_from assms(1,2) by blast
qed

end

text \<open>An abstraction whose image of every step is a run of the specification.\<close>

locale bounded_simulation = bounded_invariant start step reached used bound inv
  for start :: "'s \<Rightarrow> bool" and step reached used bound inv +
  fixes spec_step :: "'a \<Rightarrow> 'a \<Rightarrow> bool" and abstract :: "'s \<Rightarrow> 'a"
  assumes simulates_step: "step s s' \<Longrightarrow> inv s \<Longrightarrow> inv s' \<Longrightarrow> used s' < bound
      \<Longrightarrow> spec_step\<^sup>*\<^sup>* (abstract s) (abstract s')"
begin

lemma simulates_run:
  "step\<^sup>*\<^sup>* s s' \<Longrightarrow> inv s \<Longrightarrow> used s' < bound \<Longrightarrow> spec_step\<^sup>*\<^sup>* (abstract s) (abstract s')"
proof (induction rule: rtranclp_induct)
  case (step y z)
  have few: "used y < bound" using used_grows [OF step.hyps(2)] step.prems(2) by simp
  then have "inv y" "inv z"
    using inv_run [OF step.hyps(1) step.prems(1)] inv_step [OF step.hyps(2)] step.prems(2) by blast+
  then show ?case
    using step.IH [OF step.prems(1) few] simulates_step [OF step.hyps(2) _ _ step.prems(2)]
    by (meson rtranclp_trans)
qed simp

end

end
