(* ===== verification/Sessions.thy ===== *)
theory Sessions
  imports Proxy Driver Transitions
begin

text \<open>
  The server as a whole, \<open>zo-tunnel-server/src/server.rs\<close>: the control-channel sessions
  (\<open>accept_clients\<close>, \<open>handle_client\<close>), the yamux driver tasks, the public requests
  (\<open>serve_http\<close>, the proxy) and what they share.

  Each task is cut at its await points and between its accesses to shared state; any task may run
  next. The state holds all sessions, drivers and requests ever started, by number.
\<close>

section \<open>State\<close>

text \<open>The end of a session.\<close>

datatype conn_end =
  AuthTimeout
| AuthUnreadable
| NotAnAuthReq
| Rejected
| ReplyFailed
| ReservedName
| Disconnected bool

text \<open>The stages of \<open>handle_client\<close>: waiting for the first message; writing a negative or a
  positive reply; between the session counter and the registry map; waiting for the driver task;
  returned.\<close>

datatype conn =
  ReadingAuth
| Rejecting auth_req
| Accepting auth_req
| Registering auth_req nat
| Serving auth_req nat
| Finished conn_end

record ('u, 'h, 'r) sys =
  sy_proxy :: "('u, 'h, 'r) proxy_sys"
  sy_drivers :: "(bool \<times> driver) list"
  sy_conns :: "conn list"
  sy_sent :: "(auth_req \<times> auth_res) list"
  sy_fs :: fs

text \<open>The driver with number \<open>h\<close> is the task behind handle \<open>h\<close>, and its shared cells are
  \<open>activity ! h\<close> and \<open>missed ! h\<close>: the three are made together. \<open>sy_sent\<close> lists the
  replies that were written, with the request they answer.\<close>

abbreviation state_of :: "('u, 'h, 'r) sys \<Rightarrow> server_state" where
  "state_of s \<equiv> px_state (sy_proxy s)"

abbreviation heap_of :: "('u, 'h, 'r) sys \<Rightarrow> heap" where
  "heap_of s \<equiv> sv_heap (state_of s)"

abbreviation registry_of :: "('u, 'h, 'r) sys \<Rightarrow> registry" where
  "registry_of s \<equiv> sv_registry (state_of s)"

definition with_state :: "(server_state \<Rightarrow> server_state) \<Rightarrow> ('u, 'h, 'r) sys \<Rightarrow> ('u, 'h, 'r) sys" where
  "with_state f s = s\<lparr>sy_proxy := (sy_proxy s)\<lparr>px_state := f (state_of s)\<rparr>\<rparr>"

definition set_conn :: "nat \<Rightarrow> conn \<Rightarrow> ('u, 'h, 'r) sys \<Rightarrow> ('u, 'h, 'r) sys" where
  "set_conn i c s = s\<lparr>sy_conns := (sy_conns s)[i := c]\<rparr>"

section \<open>Control-channel sessions\<close>

text \<open>The settings of an accepted socket; a failure to set them is only logged.\<close>

definition server_tcp_keepalive :: "bool \<Rightarrow> tcp_keepalive" where
  "server_tcp_keepalive linux =
     \<lparr>ka_time = HEARTBEAT_INTERVAL_SECS, ka_interval = 5,
      ka_retries = (if linux then Some 3 else None)\<rparr>"

definition reject_reply :: auth_res where
  "reject_reply = \<lparr>as_success = False, as_message = ''Invalid token'', as_public_port = None,
     as_assigned_route = None\<rparr>"

text \<open>The prefix of the positive reply: \<open>OK\<close>, a space, an em dash (three bytes), a space.\<close>

definition ok_prefix :: string where
  "ok_prefix = ''OK '' @ [CHR 0xE2, CHR 0x80, CHR 0x94] @ '' ''"

definition accept_reply :: "server_config \<Rightarrow> auth_req \<Rightarrow> auth_res" where
  "accept_reply cfg a =
     \<lparr>as_success = True, as_message = ok_prefix @ ar_client_id a @ ''.'' @ domain cfg,
      as_public_port = Some (public_port cfg), as_assigned_route = Some (ar_client_id a)\<rparr>"

text \<open>\<open>None\<close> is the ten-second timeout.\<close>

definition on_auth_read :: "server_config \<Rightarrow> (proto_error, message) res option \<Rightarrow> conn" where
  "on_auth_read cfg m =
     (case m of
        None \<Rightarrow> Finished AuthTimeout
      | Some (Inl e) \<Rightarrow> Finished AuthUnreadable
      | Some (Inr (AuthReq a)) \<Rightarrow>
          if \<not> validate_token cfg (ar_token a) then Rejecting a else Accepting a
      | Some (Inr _) \<Rightarrow> Finished NotAnAuthReq)"

definition count_failed_auth :: "server_state \<Rightarrow> server_state" where
  "count_failed_auth st =
     st\<lparr>sv_metrics := (sv_metrics st)\<lparr>failed_auth := failed_auth (sv_metrics st) + 1\<rparr>\<rparr>"

definition count_connection :: "server_state \<Rightarrow> server_state" where
  "count_connection st =
     st\<lparr>sv_metrics := (sv_metrics st)\<lparr>total_connections := total_connections (sv_metrics st) + 1\<rparr>\<rparr>"

text \<open>The cells and the driver task of a new session.\<close>

definition spawn_driver :: "bool \<Rightarrow> ('u, 'h, 'r) sys \<Rightarrow> ('u, 'h, 'r) sys" where
  "spawn_driver hb s =
     (with_state (\<lambda>st. st\<lparr>sv_heap := (sv_heap st)\<lparr>
          tasks := tasks (sv_heap st) @ [\<lparr>receiver_alive = True, abort_requested = False\<rparr>],
          activity := activity (sv_heap st) @ [Some (clock (sv_heap st))],
          missed := missed (sv_heap st) @ [0]\<rparr>\<rparr>) s)
       \<lparr>sy_drivers := sy_drivers s @ [(hb, driver_new (clock (heap_of s)))]\<rparr>"

text \<open>After the positive reply: spawn the driver, then the first half of \<open>register\<close>; a reserved
  id aborts the new driver.\<close>

definition start_session :: "nat \<Rightarrow> auth_req \<Rightarrow> ('u, 'h, 'r) sys \<Rightarrow> ('u, 'h, 'r) sys" where
  "start_session i a s0 =
     (let h = length (tasks (heap_of s0)); la = length (activity (heap_of s0));
          mh = length (missed (heap_of s0)); hb = supports_heartbeat a; s = spawn_driver hb s0
      in case register_alloc (ar_client_id a) h hb la mh (registry_of s) (heap_of s) of
           (Inl _, r, hp) \<Rightarrow>
             set_conn i (Finished ReservedName)
               (with_state (\<lambda>st. st\<lparr>sv_registry := r, sv_heap := handle_abort h hp\<rparr>) s)
         | (Inr e, r, hp) \<Rightarrow>
             set_conn i (Registering a e) (with_state (\<lambda>st. st\<lparr>sv_registry := r, sv_heap := hp\<rparr>) s))"

definition route_manager :: "server_config \<Rightarrow> traefik_manager option" where
  "route_manager cfg =
     (if tc_enabled (traefik cfg) then Some \<lparr>tm_config = traefik cfg, tm_domain = domain cfg\<rparr>
      else None)"

text \<open>A failure to write the route is only logged.\<close>

definition write_client_route :: "server_config \<Rightarrow> string \<Rightarrow> fs \<Rightarrow> fs" where
  "write_client_route cfg client_id f =
     (case route_manager cfg of None \<Rightarrow> f | Some m \<Rightarrow> snd (add_client m client_id f))"

definition enter_session :: "server_config \<Rightarrow> nat \<Rightarrow> auth_req \<Rightarrow> nat \<Rightarrow> ('u, 'h, 'r) sys
    \<Rightarrow> ('u, 'h, 'r) sys" where
  "enter_session cfg i a e s =
     (case register_insert e (registry_of s) (heap_of s) of
        (_, r, hp) \<Rightarrow>
          (set_conn i (Serving a e) (with_state (\<lambda>st. st\<lparr>sv_registry := r, sv_heap := hp\<rparr>) s))
            \<lparr>sy_fs := write_client_route cfg (ar_client_id a) (sy_fs s)\<rparr>)"

definition leave_session :: "nat \<Rightarrow> auth_req \<Rightarrow> nat \<Rightarrow> ('u, 'h, 'r) sys \<Rightarrow> ('u, 'h, 'r) sys" where
  "leave_session i a e s =
     (case unregister (ar_client_id a) (ce_session_id (clients_heap (heap_of s) ! e)) (heap_of s)
             (registry_of s) of
        (removed, r) \<Rightarrow>
          set_conn i (Finished (Disconnected removed)) (with_state (\<lambda>st. st\<lparr>sv_registry := r\<rparr>) s))"

datatype conn_event =
  AuthRead "(proto_error, message) res option"
| ReplyWritten bool
| Insert
| DriverEnded

fun conn_step :: "server_config \<Rightarrow> nat \<Rightarrow> ('u, 'h, 'r) sys \<Rightarrow> conn \<Rightarrow> conn_event
    \<Rightarrow> ('u, 'h, 'r) sys option" where
  "conn_step cfg i s ReadingAuth (AuthRead m) = Some (set_conn i (on_auth_read cfg m) s)"
| "conn_step cfg i s (Rejecting a) (ReplyWritten ok) =
     (if ok then Some (set_conn i (Finished Rejected)
                  ((with_state count_failed_auth s)\<lparr>sy_sent := sy_sent s @ [(a, reject_reply)]\<rparr>))
      else Some (set_conn i (Finished ReplyFailed) s))"
| "conn_step cfg i s (Accepting a) (ReplyWritten ok) =
     (if ok then Some ((start_session i a s)\<lparr>sy_sent := sy_sent s @ [(a, accept_reply cfg a)]\<rparr>)
      else Some (set_conn i (Finished ReplyFailed) s))"
| "conn_step cfg i s (Registering a e) Insert = Some (enter_session cfg i a e s)"
| "conn_step cfg i s (Serving a e) DriverEnded =
     (if dr_running (snd (sy_drivers s ! ce_handle (clients_heap (heap_of s) ! e))) then None
      else Some (leave_session i a e s))"
| "conn_step cfg i s _ _ = None"

section \<open>Driver tasks\<close>

text \<open>A turn of driver \<open>h\<close> reads its shared cells, runs one branch of its loop and writes the
  cells back. The cancellation branch needs an abort request; the clock read is the current one.
  When the loop ends the command receiver is dropped.\<close>

definition driver_turn :: "nat \<Rightarrow> drive_event \<Rightarrow> ('u, 'h, 'r) sys \<Rightarrow> ('u, 'h, 'r) sys option" where
  "driver_turn h ev s =
     (if h < length (sy_drivers s)
         \<and> (ev = Cancelled \<longrightarrow> abort_requested (tasks (heap_of s) ! h))
         \<and> (case ev of HeartbeatDone now \<Rightarrow> now = clock (heap_of s) | _ \<Rightarrow> True) then
        (let (hb, d0) = sy_drivers s ! h;
             d = d0\<lparr>dr_missed := missed (heap_of s) ! h, dr_last_activity := activity (heap_of s) ! h\<rparr>
         in case drive hb d ev of
              None \<Rightarrow> None
            | Some d' \<Rightarrow>
                Some ((with_state (\<lambda>st. st\<lparr>sv_heap := (sv_heap st)\<lparr>
                   missed := (missed (sv_heap st))[h := dr_missed d'],
                   activity := (activity (sv_heap st))[h := dr_last_activity d'],
                   tasks := (tasks (sv_heap st))[h := (tasks (sv_heap st) ! h)
                              \<lparr>receiver_alive := dr_running d'\<rparr>]\<rparr>\<rparr>) s)
                  \<lparr>sy_drivers := (sy_drivers s)[h := (hb, d')]\<rparr>))
      else None)"

section \<open>The public side\<close>

datatype destination = ToDashboard | ToProxy

text \<open>\<open>serve_http\<close>: the apex and the dashboard host go to the dashboard router, every other
  host to the proxy; without a readable \<open>Host\<close> the host is empty.\<close>

definition dispatch :: "string \<Rightarrow> string option \<Rightarrow> destination" where
  "dispatch domn host_header =
     (let host = (case host_header of Some h \<Rightarrow> h | None \<Rightarrow> []); hnp = host_no_port host
      in if hnp = ''dashboard.'' @ domn \<or> hnp = domn then ToDashboard else ToProxy)"

section \<open>Start and steps\<close>

datatype run_error = DomainRequired

text \<open>\<open>Server::run\<close> up to its tasks: the domain check, the shared state, the static routes.\<close>

definition server_run :: "server_config \<Rightarrow> instant \<Rightarrow> fs \<Rightarrow> (run_error, ('u, 'h, 'r) sys) res" where
  "server_run cfg now f =
     (if domain cfg = [] then Inl DomainRequired
      else Inr \<lparr>sy_proxy = \<lparr>px_state = server_state_new now
                    (rl_requests_per_second (rate_limit cfg)), px_flights = []\<rparr>,
                sy_drivers = [], sy_conns = [], sy_sent = [],
                sy_fs = (case route_manager cfg of None \<Rightarrow> f
                         | Some m \<Rightarrow> snd (write_static_routes m f))\<rparr>)"

inductive server_step :: "server_config \<Rightarrow> ('u, 'h) http_lib \<Rightarrow> ('u, 'h, 'r) sys
    \<Rightarrow> ('u, 'h, 'r) sys \<Rightarrow> bool" for cfg L where
  accept: "server_step cfg L s
     ((with_state count_connection s)\<lparr>sy_conns := sy_conns s @ [ReadingAuth]\<rparr>)"
| session: "i < length (sy_conns s) \<Longrightarrow> conn_step cfg i s (sy_conns s ! i) ev = Some s'
     \<Longrightarrow> server_step cfg L s s'"
| driver: "driver_turn h ev s = Some s' \<Longrightarrow> server_step cfg L s s'"
| request: "proxy_step L (domain cfg) (sy_proxy s) pev = Some p'
     \<Longrightarrow> (case pev of Arrive req \<Rightarrow>
            dispatch (domain cfg) (header_str L (rq_headers req) ''host'') = ToProxy | _ \<Rightarrow> True)
     \<Longrightarrow> server_step cfg L s (s\<lparr>sy_proxy := p'\<rparr>)"
| tick: "clock (heap_of s) \<le> now
     \<Longrightarrow> server_step cfg L s (with_state (\<lambda>st. st\<lparr>sv_heap := (sv_heap st)\<lparr>clock := now\<rparr>\<rparr>) s)"

inductive reachable :: "server_config \<Rightarrow> ('u, 'h) http_lib \<Rightarrow> ('u, 'h, 'r) sys \<Rightarrow> bool" for cfg L where
  start: "server_run cfg now f = Inr s \<Longrightarrow> reachable cfg L s"
| step: "reachable cfg L s \<Longrightarrow> server_step cfg L s s' \<Longrightarrow> reachable cfg L s'"


section \<open>The session invariant\<close>

text \<open>The session object a control-channel session has made, with the request it was made for.\<close>

fun owned :: "conn \<Rightarrow> (auth_req \<times> nat) option" where
  "owned (Registering a e) = Some (a, e)"
| "owned (Serving a e) = Some (a, e)"
| "owned _ = None"

definition owner_ok :: "server_config \<Rightarrow> ('u, 'h, 'r) sys \<Rightarrow> auth_req \<Rightarrow> nat \<Rightarrow> bool" where
  "owner_ok cfg s a e \<longleftrightarrow>
     e < length (clients_heap (heap_of s))
     \<and> ce_client_id (clients_heap (heap_of s) ! e) = ar_client_id a
     \<and> ar_client_id a \<notin> set RESERVED_SUBDOMAINS
     \<and> validate_token cfg (ar_token a)
     \<and> (a, accept_reply cfg a) \<in> set (sy_sent s)"

definition told_to_stop :: "('u, 'h, 'r) sys \<Rightarrow> nat \<Rightarrow> bool" where
  "told_to_stop s e \<longleftrightarrow> abort_requested (tasks (heap_of s) ! ce_handle (clients_heap (heap_of s) ! e))"

definition session_inv :: "server_config \<Rightarrow> ('u, 'h, 'r) sys \<Rightarrow> bool" where
  "session_inv cfg s \<longleftrightarrow>
     registry_wf (registry_of s) (heap_of s)
     \<and> length (sy_drivers s) = length (tasks (heap_of s))
     \<and> length (activity (heap_of s)) = length (tasks (heap_of s))
     \<and> length (missed (heap_of s)) = length (tasks (heap_of s))
     \<and> (\<forall>i < length (sy_conns s). \<forall>a e. owned (sy_conns s ! i) = Some (a, e) \<longrightarrow> owner_ok cfg s a e)
     \<and> (\<forall>i < length (sy_conns s). \<forall>j < length (sy_conns s). \<forall>a b e.
          owned (sy_conns s ! i) = Some (a, e) \<longrightarrow> owned (sy_conns s ! j) = Some (b, e) \<longrightarrow> i = j)
     \<and> (\<forall>k e. registry_get (registry_of s) k = Some e \<longrightarrow>
          (\<exists>i < length (sy_conns s). \<exists>a. sy_conns s ! i = Serving a e))
     \<and> (\<forall>i < length (sy_conns s). \<forall>a e. sy_conns s ! i = Serving a e \<longrightarrow>
          registry_get (registry_of s) (ar_client_id a) = Some e \<or> told_to_stop s e)
     \<and> (\<forall>i < length (sy_conns s). \<forall>a. sy_conns s ! i = Accepting a \<longrightarrow>
          validate_token cfg (ar_token a))"

text \<open>What the invariant reads of the shared state, and how it may change.\<close>

definition core_grows :: "('u, 'h, 'r) sys \<Rightarrow> ('u, 'h, 'r) sys \<Rightarrow> bool" where
  "core_grows s s' \<longleftrightarrow>
     registry_wf (registry_of s') (heap_of s')
     \<and> registry_get (registry_of s') = registry_get (registry_of s)
     \<and> length (sy_drivers s') = length (tasks (heap_of s'))
     \<and> length (activity (heap_of s')) = length (tasks (heap_of s'))
     \<and> length (missed (heap_of s')) = length (tasks (heap_of s'))
     \<and> (\<forall>h < length (tasks (heap_of s)). abort_requested (tasks (heap_of s) ! h)
          \<longrightarrow> abort_requested (tasks (heap_of s') ! h))
     \<and> length (clients_heap (heap_of s)) \<le> length (clients_heap (heap_of s'))
     \<and> (\<forall>i < length (clients_heap (heap_of s)).
          ce_client_id (clients_heap (heap_of s') ! i) = ce_client_id (clients_heap (heap_of s) ! i)
          \<and> ce_handle (clients_heap (heap_of s') ! i) = ce_handle (clients_heap (heap_of s) ! i))
     \<and> set (sy_sent s) \<subseteq> set (sy_sent s')"

lemma registry_wf_handle: "registry_wf r s \<Longrightarrow> e < length (clients_heap s)
    \<Longrightarrow> ce_handle (clients_heap s ! e) < length (tasks s)"
  by (simp add: registry_wf_def)

lemma session_invD:
  assumes "session_inv cfg s"
  shows "registry_wf (registry_of s) (heap_of s)"
    "length (sy_drivers s) = length (tasks (heap_of s))"
    "length (activity (heap_of s)) = length (tasks (heap_of s))"
    "length (missed (heap_of s)) = length (tasks (heap_of s))"
    "i < length (sy_conns s) \<Longrightarrow> owned (sy_conns s ! i) = Some (a, e) \<Longrightarrow> owner_ok cfg s a e"
    "i < length (sy_conns s) \<Longrightarrow> j < length (sy_conns s) \<Longrightarrow> owned (sy_conns s ! i) = Some (a, e)
      \<Longrightarrow> owned (sy_conns s ! j) = Some (b, e) \<Longrightarrow> i = j"
    "registry_get (registry_of s) k = Some e
      \<Longrightarrow> \<exists>i < length (sy_conns s). \<exists>a. sy_conns s ! i = Serving a e"
    "i < length (sy_conns s) \<Longrightarrow> sy_conns s ! i = Serving a e
      \<Longrightarrow> registry_get (registry_of s) (ar_client_id a) = Some e \<or> told_to_stop s e"
    "i < length (sy_conns s) \<Longrightarrow> sy_conns s ! i = Accepting a \<Longrightarrow> validate_token cfg (ar_token a)"
  using assms unfolding session_inv_def by blast+

lemma session_inv_frame:
  assumes inv: "session_inv cfg s" and core: "core_grows s s'" and conns: "sy_conns s' = sy_conns s"
  shows "session_inv cfg s'"
proof -
  have owner: "owner_ok cfg s a e \<Longrightarrow> owner_ok cfg s' a e" for a e
    using core by (auto simp: owner_ok_def core_grows_def)
  have stop: "owner_ok cfg s a e \<Longrightarrow> told_to_stop s e \<Longrightarrow> told_to_stop s' e" for a e
    using core registry_wf_handle [OF session_invD(1) [OF inv], of e]
    by (simp add: told_to_stop_def core_grows_def owner_ok_def)
  have "registry_get (registry_of s) (ar_client_id a) = Some e \<or> told_to_stop s' e"
    if "i < length (sy_conns s)" "sy_conns s ! i = Serving a e" for i a e
    using session_invD(8) [OF inv that] session_invD(5) [OF inv that(1), of a e] that(2) stop by auto
  moreover have "registry_get (registry_of s') = registry_get (registry_of s)"
    using core by (simp add: core_grows_def)
  ultimately show ?thesis
    using inv owner core unfolding session_inv_def conns core_grows_def by simp
qed

text \<open>A session may change its stage while it owns nothing, and may come to own a session object
  that no other session owns.\<close>

lemma session_inv_set_conn:
  assumes inv: "session_inv cfg s" and i: "i < length (sy_conns s)"
    and c: "owned (sy_conns s ! i) = None" "\<And>a. c = Accepting a \<Longrightarrow> validate_token cfg (ar_token a)"
      "\<And>a e. c \<noteq> Serving a e"
    and own: "\<And>a e. owned c = Some (a, e) \<Longrightarrow> owner_ok cfg s a e
      \<and> (\<forall>j < length (sy_conns s). \<forall>b. owned (sy_conns s ! j) \<noteq> Some (b, e))"
  shows "session_inv cfg (set_conn i c s)"
proof -
  have at: "(sy_conns s)[i := c] ! j = (if j = i then c else sy_conns s ! j)"
    if "j < length (sy_conns s)" for j
    using that by (auto simp: nth_list_update)
  have ok: "owner_ok cfg (set_conn i c s) = owner_ok cfg s" "told_to_stop (set_conn i c s) = told_to_stop s"
    by (simp_all add: owner_ok_def told_to_stop_def set_conn_def fun_eq_iff)
  have len: "length (sy_conns (set_conn i c s)) = length (sy_conns s)"
    "registry_of (set_conn i c s) = registry_of s" "heap_of (set_conn i c s) = heap_of s"
    "sy_drivers (set_conn i c s) = sy_drivers s" "sy_conns (set_conn i c s) = (sy_conns s)[i := c]"
    by (simp_all add: set_conn_def)
  have reg: "\<exists>j < length (sy_conns s). \<exists>a. (sy_conns s)[i := c] ! j = Serving a e"
    if g: "registry_get (registry_of s) k = Some e" for k e
  proof -
    obtain j a where j: "j < length (sy_conns s)" "sy_conns s ! j = Serving a e"
      using session_invD(7) [OF inv g] by blast
    then have "j \<noteq> i" using c(1) by auto
    then show ?thesis using j at [OF j(1)] by auto
  qed
  show ?thesis
    unfolding session_inv_def len ok length_list_update
  proof (intro conjI)
    show "\<forall>j < length (sy_conns s). \<forall>a e. owned ((sy_conns s)[i := c] ! j) = Some (a, e)
        \<longrightarrow> owner_ok cfg s a e"
      using session_invD(5) [OF inv] own by (auto simp: at split: if_splits)
    show "\<forall>j < length (sy_conns s). \<forall>k < length (sy_conns s). \<forall>a b e.
        owned ((sy_conns s)[i := c] ! j) = Some (a, e) \<longrightarrow>
        owned ((sy_conns s)[i := c] ! k) = Some (b, e) \<longrightarrow> j = k"
      using session_invD(6) [OF inv] own by (auto simp: at split: if_splits)
    show "\<forall>j < length (sy_conns s). \<forall>a e. (sy_conns s)[i := c] ! j = Serving a e \<longrightarrow>
        registry_get (registry_of s) (ar_client_id a) = Some e \<or> told_to_stop s e"
      using session_invD(8) [OF inv] c(3) by (auto simp: at split: if_splits)
    show "\<forall>j < length (sy_conns s). \<forall>a. (sy_conns s)[i := c] ! j = Accepting a \<longrightarrow>
        validate_token cfg (ar_token a)"
      using session_invD(9) [OF inv] c(2) by (auto simp: at split: if_splits)
  qed (use reg session_invD(1-4) [OF inv] in auto)
qed

lemma session_inv_start:
  assumes "server_run cfg now f = Inr s"
  shows "session_inv cfg s"
  using assms by (auto simp: server_run_def session_inv_def server_state_new_def registry_wf_new
      registry_get_new split: if_splits)

section \<open>Every step keeps the invariant\<close>

lemma sys_simps [simp]:
  "sy_conns (with_state f s) = sy_conns s" "sy_sent (with_state f s) = sy_sent s"
  "sy_drivers (with_state f s) = sy_drivers s" "state_of (with_state f s) = f (state_of s)"
  "px_flights (sy_proxy (with_state f s)) = px_flights (sy_proxy s)"
  "sy_proxy (set_conn i c s) = sy_proxy s" "sy_sent (set_conn i c s) = sy_sent s"
  "sy_drivers (set_conn i c s) = sy_drivers s" "sy_conns (set_conn i c s) = (sy_conns s)[i := c]"
  by (simp_all add: with_state_def set_conn_def)

lemma registry_wf_grow:
  "registry_wf r hp \<Longrightarrow> clients_heap hp' = clients_heap hp
    \<Longrightarrow> length (tasks hp) \<le> length (tasks hp') \<Longrightarrow> registry_wf r hp'"
  by (auto simp: registry_wf_def)

text \<open>The state between the spawn and the new stage of the session.\<close>

definition allocated :: "server_config \<Rightarrow> auth_req \<Rightarrow> ('u, 'h, 'r) sys \<Rightarrow> registry \<Rightarrow> heap
    \<Rightarrow> ('u, 'h, 'r) sys" where
  "allocated cfg a s r hp =
     (with_state (\<lambda>st. st\<lparr>sv_registry := r, sv_heap := hp\<rparr>) (spawn_driver (supports_heartbeat a) s))
       \<lparr>sy_sent := sy_sent s @ [(a, accept_reply cfg a)]\<rparr>"

lemma start_session_cases:
  assumes "s' = (start_session i a s)\<lparr>sy_sent := sy_sent s @ [(a, accept_reply cfg a)]\<rparr>"
  obtains
    (reserved) "ar_client_id a \<in> set RESERVED_SUBDOMAINS"
      "s' = set_conn i (Finished ReservedName) (allocated cfg a s (registry_of s)
             (handle_abort (length (tasks (heap_of s))) (heap_of (spawn_driver (supports_heartbeat a) s))))"
  | (fresh) r hp where "ar_client_id a \<notin> set RESERVED_SUBDOMAINS"
      "register_alloc (ar_client_id a) (length (tasks (heap_of s))) (supports_heartbeat a)
         (length (activity (heap_of s))) (length (missed (heap_of s))) (registry_of s)
         (heap_of (spawn_driver (supports_heartbeat a) s)) = (Inr (length (clients_heap (heap_of s))), r, hp)"
      "s' = set_conn i (Registering a (length (clients_heap (heap_of s)))) (allocated cfg a s r hp)"
proof (cases "ar_client_id a \<in> set RESERVED_SUBDOMAINS")
  case True
  then show thesis
    using assms reserved by (simp add: start_session_def register_alloc_def Let_def allocated_def
        set_conn_def with_state_def spawn_driver_def)
next
  case False
  then show thesis
    using assms fresh by (simp add: start_session_def register_alloc_def Let_def allocated_def
        set_conn_def with_state_def spawn_driver_def)
qed

lemma heap_of_spawn_driver:
  "clients_heap (heap_of (spawn_driver hb s)) = clients_heap (heap_of s)"
  "tasks (heap_of (spawn_driver hb s))
     = tasks (heap_of s) @ [\<lparr>receiver_alive = True, abort_requested = False\<rparr>]"
  "length (activity (heap_of (spawn_driver hb s))) = Suc (length (activity (heap_of s)))"
  "length (missed (heap_of (spawn_driver hb s))) = Suc (length (missed (heap_of s)))"
  "registry_of (spawn_driver hb s) = registry_of s" "sy_conns (spawn_driver hb s) = sy_conns s"
  "length (sy_drivers (spawn_driver hb s)) = Suc (length (sy_drivers s))"
  "sy_sent (spawn_driver hb s) = sy_sent s"
  by (simp_all add: spawn_driver_def)

lemma allocated_simps [simp]:
  "sy_conns (allocated cfg a s r hp) = sy_conns s"
  "sy_sent (allocated cfg a s r hp) = sy_sent s @ [(a, accept_reply cfg a)]"
  "registry_of (allocated cfg a s r hp) = r" "heap_of (allocated cfg a s r hp) = hp"
  "length (sy_drivers (allocated cfg a s r hp)) = Suc (length (sy_drivers s))"
  by (simp_all add: allocated_def heap_of_spawn_driver)

lemma session_inv_start_session:
  assumes inv: "session_inv cfg s" and i: "i < length (sy_conns s)" "sy_conns s ! i = Accepting a"
  shows "session_inv cfg ((start_session i a s)\<lparr>sy_sent := sy_sent s @ [(a, accept_reply cfg a)]\<rparr>)"
    (is "session_inv cfg ?s'")
proof -
  let ?hp0 = "heap_of (spawn_driver (supports_heartbeat a) s)"
  have wf0: "registry_wf (registry_of s) ?hp0"
    by (rule registry_wf_grow [OF session_invD(1) [OF inv]]) (simp_all add: heap_of_spawn_driver)
  note len = session_invD(2-4) [OF inv]
  show ?thesis
  proof (rule start_session_cases [where i = i and a = a and s = s and cfg = cfg, OF refl])
    assume s': "?s' = set_conn i (Finished ReservedName) (allocated cfg a s (registry_of s)
        (handle_abort (length (tasks (heap_of s))) ?hp0))"
    have "registry_wf (registry_of s) (handle_abort (length (tasks (heap_of s))) ?hp0)"
      by (rule registry_wf_grow [OF wf0]) simp_all
    then have "core_grows s (allocated cfg a s (registry_of s)
        (handle_abort (length (tasks (heap_of s))) ?hp0))"
      using len by (auto simp: core_grows_def heap_of_spawn_driver handle_abort_def nth_append)
    from session_inv_frame [OF inv this] show ?thesis
      unfolding s' using i by (intro session_inv_set_conn) simp_all
  next
    fix r hp
    let ?e = "length (clients_heap (heap_of s))"
    assume free: "ar_client_id a \<notin> set RESERVED_SUBDOMAINS"
      and reg: "register_alloc (ar_client_id a) (length (tasks (heap_of s))) (supports_heartbeat a)
         (length (activity (heap_of s))) (length (missed (heap_of s))) (registry_of s) ?hp0
         = (Inr ?e, r, hp)"
      and s': "?s' = set_conn i (Registering a ?e) (allocated cfg a s r hp)"
    have wf: "registry_wf r hp"
      by (rule registry_wf_alloc [OF wf0 reg]) (simp add: heap_of_spawn_driver)
    have r: "registry_get r = registry_get (registry_of s)" "tasks hp = tasks ?hp0"
      "activity hp = activity ?hp0" "missed hp = missed ?hp0"
      "length (clients_heap hp) = Suc ?e" "ce_client_id (clients_heap hp ! ?e) = ar_client_id a"
      "\<And>j. j < ?e \<Longrightarrow> clients_heap hp ! j = clients_heap (heap_of s) ! j"
      using reg free by (auto simp: register_alloc_def Let_def registry_get_def fun_eq_iff
          heap_of_spawn_driver nth_append)
    have "core_grows s (allocated cfg a s r hp)"
      using wf r len by (auto simp: core_grows_def heap_of_spawn_driver nth_append)
    then have inv1: "session_inv cfg (allocated cfg a s r hp)"
      by (rule session_inv_frame [OF inv]) simp
    have ok: "owner_ok cfg (allocated cfg a s r hp) a ?e"
      using r free session_invD(9) [OF inv i] by (simp add: owner_ok_def)
    have "owned (sy_conns s ! j) \<noteq> Some (b, ?e)" if "j < length (sy_conns s)" for j b
      using session_invD(5) [OF inv that, of b ?e] by (auto simp: owner_ok_def)
    then show ?thesis
      unfolding s' using inv1 i ok by (intro session_inv_set_conn) auto
  qed
qed

lemma enter_session_simps:
  assumes "e < length (clients_heap (heap_of s))" "ce_client_id (clients_heap (heap_of s) ! e) = c"
    "dm_wf (clients (registry_of s))" "c = ar_client_id a"
  shows "registry_get (registry_of (enter_session cfg i a e s))
      = (registry_get (registry_of s))(c \<mapsto> e)"
    "heap_of (enter_session cfg i a e s) = (case registry_get (registry_of s) c of
       Some old \<Rightarrow> handle_abort (ce_handle (clients_heap (heap_of s) ! old)) (heap_of s)
     | None \<Rightarrow> heap_of s)"
    "sy_conns (enter_session cfg i a e s) = (sy_conns s)[i := Serving a e]"
    "sy_sent (enter_session cfg i a e s) = sy_sent s"
    "sy_drivers (enter_session cfg i a e s) = sy_drivers s"
    "px_flights (sy_proxy (enter_session cfg i a e s)) = px_flights (sy_proxy s)"
    "registry_of (enter_session cfg i a e s)
      = (registry_of s)\<lparr>clients := dm_put c e (clients (registry_of s))\<rparr>"
    "sv_metrics (state_of (enter_session cfg i a e s)) = sv_metrics (state_of s)"
  using assms
  by (auto simp: enter_session_def register_insert_def registry_get_def Let_def fun_eq_iff dm.get_put
      split: option.split prod.split)

lemma handle_abort_at:
  "abort_requested (tasks (handle_abort h hp) ! i) \<longleftrightarrow>
     abort_requested (tasks hp ! i) \<or> (i = h \<and> h < length (tasks hp))"
  by (cases "h < length (tasks hp)"; cases "i = h")
     (auto simp: handle_abort_def list_update_beyond)

lemma session_inv_enter:
  assumes inv: "session_inv cfg s" and i: "i < length (sy_conns s)" "sy_conns s ! i = Registering a e"
  shows "session_inv cfg (enter_session cfg i a e s)" (is "session_inv cfg ?s'")
proof -
  let ?c = "ar_client_id a"
  have ok: "owner_ok cfg s a e" using session_invD(5) [OF inv i(1), of a e] i(2) by simp
  then have e: "e < length (clients_heap (heap_of s))"
    "ce_client_id (clients_heap (heap_of s) ! e) = ?c" "?c \<notin> set RESERVED_SUBDOMAINS"
    by (simp_all add: owner_ok_def)
  note wf = session_invD(1) [OF inv]
  have "dm_wf (clients (registry_of s))" using wf by (simp add: registry_wf_def)
  note E = enter_session_simps [where cfg = cfg and i = i, OF e(1,2) this refl]
  have same: "clients_heap (heap_of ?s') = clients_heap (heap_of s)"
    "length (tasks (heap_of ?s')) = length (tasks (heap_of s))"
    "activity (heap_of ?s') = activity (heap_of s)" "missed (heap_of ?s') = missed (heap_of s)"
    unfolding E(2) by (simp_all split: option.split)
  have owner: "owner_ok cfg ?s' b d \<longleftrightarrow> owner_ok cfg s b d" for b d
    by (simp add: owner_ok_def same E(4))
  have told: "told_to_stop ?s' d \<longleftrightarrow> told_to_stop s d \<or> (\<exists>old. registry_get (registry_of s) ?c = Some old
      \<and> ce_handle (clients_heap (heap_of s) ! old) = ce_handle (clients_heap (heap_of s) ! d))"
    if "d < length (clients_heap (heap_of s))" for d
    using registry_wf_handle [OF wf that]
    by (auto simp: told_to_stop_def same E(2) handle_abort_at split: option.split)
  have wf': "registry_wf (registry_of ?s') (heap_of ?s')"
    using registry_wf_insert [OF wf, of e "fst (register_insert e (registry_of s) (heap_of s))"] e
    by (auto simp: enter_session_def split: prod.split)
  have at: "(sy_conns s)[i := Serving a e] ! j = (if j = i then Serving a e else sy_conns s ! j)"
    if "j < length (sy_conns s)" for j
    using that by (auto simp: nth_list_update)
  have own: "owned ((sy_conns s)[i := Serving a e] ! j) = owned (sy_conns s ! j)"
    if "j < length (sy_conns s)" for j
    using that i(2) by (simp add: at)
  have reg: "\<exists>j < length (sy_conns s). \<exists>b. (sy_conns s)[i := Serving a e] ! j = Serving b d"
    if g: "registry_get (registry_of ?s') k = Some d" for k d
  proof (cases "k = ?c")
    case True
    then show ?thesis using g i(1) E(1) by auto
  next
    case False
    then obtain j b where j: "j < length (sy_conns s)" "sy_conns s ! j = Serving b d"
      using session_invD(7) [OF inv, of k d] g E(1) by auto
    then have "j \<noteq> i" using i(2) by auto
    then show ?thesis using j at [OF j(1)] by auto
  qed
  have serv: "registry_get (registry_of ?s') (ar_client_id b) = Some d \<or> told_to_stop ?s' d"
    if j: "j < length (sy_conns s)" "(sy_conns s)[i := Serving a e] ! j = Serving b d" for j b d
  proof (cases "j = i")
    case True
    then show ?thesis using j E(1) at [OF j(1)] by simp
  next
    case False
    with j at [OF j(1)] have s: "sy_conns s ! j = Serving b d" by simp
    then have "d < length (clients_heap (heap_of s))"
      using session_invD(5) [OF inv j(1), of b d] by (simp add: owner_ok_def)
    then show ?thesis
      using session_invD(8) [OF inv j(1) s] E(1) told by (cases "ar_client_id b = ?c") auto
  qed
  show ?thesis
    unfolding session_inv_def owner E(3) E(5) length_list_update
  proof (intro conjI)
    show "\<forall>j < length (sy_conns s). \<forall>b. (sy_conns s)[i := Serving a e] ! j = Accepting b \<longrightarrow>
        validate_token cfg (ar_token b)"
      using session_invD(9) [OF inv] by (auto simp: at split: if_splits)
    show "\<forall>j < length (sy_conns s). \<forall>b d. owned ((sy_conns s)[i := Serving a e] ! j) = Some (b, d)
        \<longrightarrow> owner_ok cfg s b d"
      using session_invD(5) [OF inv] own by simp
    show "\<forall>j < length (sy_conns s). \<forall>k < length (sy_conns s). \<forall>b b' d.
        owned ((sy_conns s)[i := Serving a e] ! j) = Some (b, d) \<longrightarrow>
        owned ((sy_conns s)[i := Serving a e] ! k) = Some (b', d) \<longrightarrow> j = k"
      using session_invD(6) [OF inv] own by simp
  qed (use wf' reg serv session_invD(2-4) [OF inv] same in auto)
qed

lemma leave_session_simps:
  assumes wf: "registry_wf (registry_of s) (heap_of s)" and e: "e < length (clients_heap (heap_of s))"
    and few: "length (clients_heap (heap_of s)) < 2 ^ 64"
  shows "heap_of (leave_session i a e s) = heap_of s"
    "registry_get (registry_of (leave_session i a e s)) k =
      (if k = ar_client_id a \<and> registry_get (registry_of s) k = Some e then None
       else registry_get (registry_of s) k)"
    "\<exists>b. sy_conns (leave_session i a e s) = (sy_conns s)[i := Finished (Disconnected b)]"
    "sy_sent (leave_session i a e s) = sy_sent s" "sy_drivers (leave_session i a e s) = sy_drivers s"
    "px_flights (sy_proxy (leave_session i a e s)) = px_flights (sy_proxy s)"
    "registry_wf (registry_of (leave_session i a e s)) (heap_of (leave_session i a e s))"
    "sv_metrics (state_of (leave_session i a e s)) = sv_metrics (state_of s)"
proof -
  have dm: "dm_wf (clients (registry_of s))" using wf by (simp add: registry_wf_def)
  have inj: "ce_session_id (clients_heap (heap_of s) ! d) = ce_session_id (clients_heap (heap_of s) ! e)
      \<longleftrightarrow> d = e" if "registry_get (registry_of s) k = Some d" for k d
    using session_id_inject [OF wf few _ e, of d] that wf
    by (auto simp: registry_wf_def registry_get_def)
  show "registry_get (registry_of (leave_session i a e s)) k =
      (if k = ar_client_id a \<and> registry_get (registry_of s) k = Some e then None
       else registry_get (registry_of s) k)"
    using inj [of k] dm
    by (auto simp: leave_session_def unregister_def registry_get_def Let_def dm.get_remove_if)
  show "registry_wf (registry_of (leave_session i a e s)) (heap_of (leave_session i a e s))"
    using registry_wf_unregister [OF wf, of "ar_client_id a"
        "ce_session_id (clients_heap (heap_of s) ! e)"]
    by (simp add: leave_session_def split_beta)
  show "\<exists>b. sy_conns (leave_session i a e s) = (sy_conns s)[i := Finished (Disconnected b)]"
    unfolding leave_session_def split_beta sys_simps by blast
qed (simp_all add: leave_session_def unregister_def Let_def)

lemma session_inv_leave:
  assumes inv: "session_inv cfg s" and i: "i < length (sy_conns s)" "sy_conns s ! i = Serving a e"
    and few: "length (clients_heap (heap_of s)) < 2 ^ 64"
  shows "session_inv cfg (leave_session i a e s)" (is "session_inv cfg ?s'")
proof -
  have ok: "owner_ok cfg s a e" using session_invD(5) [OF inv i(1), of a e] i(2) by simp
  then have e: "e < length (clients_heap (heap_of s))"
    "ce_client_id (clients_heap (heap_of s) ! e) = ar_client_id a"
    by (simp_all add: owner_ok_def)
  note wf = session_invD(1) [OF inv]
  note L = leave_session_simps [OF wf e(1) few, of i a]
  obtain b0 where conns: "sy_conns ?s' = (sy_conns s)[i := Finished (Disconnected b0)]"
    using L(3) by blast
  define cs where "cs = (sy_conns s)[i := Finished (Disconnected b0)]"
  have at: "cs ! j = (if j = i then Finished (Disconnected b0) else sy_conns s ! j)"
    if "j < length (sy_conns s)" for j
    using that by (auto simp: cs_def nth_list_update)
  have owner: "owner_ok cfg ?s' b d \<longleftrightarrow> owner_ok cfg s b d" "told_to_stop ?s' d \<longleftrightarrow> told_to_stop s d"
    for b d by (simp_all add: owner_ok_def told_to_stop_def L)
  have reg: "\<exists>j < length (sy_conns s). \<exists>b. cs ! j = Serving b d"
    if g: "registry_get (registry_of ?s') k = Some d" for k d
  proof -
    have g': "registry_get (registry_of s) k = Some d" "\<not> (k = ar_client_id a \<and> d = e)"
      using g by (auto simp: L(2) split: if_splits)
    then have "d \<noteq> e" using wf e(2) by (auto simp: registry_wf_def registry_get_def)
    moreover obtain j b where j: "j < length (sy_conns s)" "sy_conns s ! j = Serving b d"
      using session_invD(7) [OF inv g'(1)] by blast
    ultimately have "j \<noteq> i" using i(2) by auto
    then show ?thesis using j at [OF j(1)] by auto
  qed
  have serv: "registry_get (registry_of ?s') (ar_client_id b) = Some d \<or> told_to_stop s d"
    if j: "j < length (sy_conns s)" "cs ! j = Serving b d" for j b d
  proof -
    from j at [OF j(1)] have s: "sy_conns s ! j = Serving b d" "j \<noteq> i" by (auto split: if_splits)
    then have "d \<noteq> e"
      using session_invD(6) [OF inv j(1) i(1), of b e a] i(2) by auto
    then show ?thesis
      using session_invD(8) [OF inv j(1) s(1)] by (auto simp: L(2))
  qed
  have len: "length cs = length (sy_conns s)" by (simp add: cs_def)
  show ?thesis
    unfolding session_inv_def owner L(1) L(5) conns cs_def [symmetric] len
  proof (intro conjI)
    show "\<forall>j < length (sy_conns s). \<forall>b. cs ! j = Accepting b \<longrightarrow> validate_token cfg (ar_token b)"
      using session_invD(9) [OF inv] by (auto simp: at split: if_splits)
    show "\<forall>j < length (sy_conns s). \<forall>b d. owned (cs ! j) = Some (b, d) \<longrightarrow> owner_ok cfg s b d"
      using session_invD(5) [OF inv] by (auto simp: at split: if_splits)
    show "\<forall>j < length (sy_conns s). \<forall>k < length (sy_conns s). \<forall>b b' d.
        owned (cs ! j) = Some (b, d) \<longrightarrow> owned (cs ! k) = Some (b', d) \<longrightarrow> j = k"
      using session_invD(6) [OF inv] by (auto simp: at split: if_splits)
  qed (use L(7) [unfolded L(1)] reg serv session_invD(2-4) [OF inv] in auto)
qed

text \<open>Steps that touch no session stage.\<close>

lemma core_grows_driver:
  assumes inv: "session_inv cfg s" and st: "driver_turn h ev s = Some s'"
  shows "core_grows s s'"
proof -
  from st obtain hb d' where h: "h < length (sy_drivers s)"
    and s': "s' = (with_state (\<lambda>st. st\<lparr>sv_heap := (sv_heap st)\<lparr>
                   missed := (missed (sv_heap st))[h := dr_missed d'],
                   activity := (activity (sv_heap st))[h := dr_last_activity d'],
                   tasks := (tasks (sv_heap st))[h := (tasks (sv_heap st) ! h)
                              \<lparr>receiver_alive := dr_running d'\<rparr>]\<rparr>\<rparr>) s)
                  \<lparr>sy_drivers := (sy_drivers s)[h := (hb, d')]\<rparr>"
    by (auto simp: driver_turn_def Let_def split: if_splits prod.splits option.splits)
  have "registry_wf (registry_of s') (heap_of s')"
    by (rule registry_wf_grow [where hp = "heap_of s"]) (use session_invD(1) [OF inv] s' in simp_all)
  then show ?thesis
    using session_invD(2-4) [OF inv] s' h by (simp add: core_grows_def nth_update_at)
qed

lemma core_grows_request:
  assumes inv: "session_inv cfg s" and st: "proxy_step L domn (sy_proxy s) ev = Some p'"
  shows "core_grows s (s\<lparr>sy_proxy := p'\<rparr>)"
proof -
  have same: "same_sessions (state_of s) (px_state p')" by (rule same_sessions_step [OF st])
  then have "registry_wf (sv_registry (px_state p')) (sv_heap (px_state p'))"
    using session_invD(1) [OF inv] unfolding same_sessions_def registry_wf_def by simp
  then show ?thesis
    using session_invD(2-4) [OF inv] same by (simp add: core_grows_def same_sessions_def)
qed

lemma core_grows_counters:
  assumes "session_inv cfg s" and "sv_registry (f (state_of s)) = registry_of s"
    "clients_heap (sv_heap (f (state_of s))) = clients_heap (heap_of s)"
    "tasks (sv_heap (f (state_of s))) = tasks (heap_of s)"
    "activity (sv_heap (f (state_of s))) = activity (heap_of s)"
    "missed (sv_heap (f (state_of s))) = missed (heap_of s)"
    "set (sy_sent s) \<subseteq> set sent"
  shows "core_grows s ((with_state f s)\<lparr>sy_sent := sent\<rparr>)"
proof -
  have "registry_wf (registry_of s) (sv_heap (f (state_of s)))"
    by (rule registry_wf_grow [OF session_invD(1) [OF assms(1)]]) (use assms in simp_all)
  then show ?thesis
    using session_invD(2-4) [OF assms(1)] assms by (simp add: core_grows_def)
qed

lemma session_inv_accept:
  assumes inv: "session_inv cfg s"
  shows "session_inv cfg (s\<lparr>sy_conns := sy_conns s @ [ReadingAuth]\<rparr>)"
proof -
  have ok: "owner_ok cfg (s\<lparr>sy_conns := cs\<rparr>) = owner_ok cfg s"
    "told_to_stop (s\<lparr>sy_conns := cs\<rparr>) = told_to_stop s" for cs
    by (simp_all add: owner_ok_def told_to_stop_def fun_eq_iff)
  have eqs: "sy_conns (s\<lparr>sy_conns := cs\<rparr>) = cs" "sy_proxy (s\<lparr>sy_conns := cs\<rparr>) = sy_proxy s"
    "sy_drivers (s\<lparr>sy_conns := cs\<rparr>) = sy_drivers s" for cs
    by simp_all
  have at: "(sy_conns s @ [ReadingAuth]) ! j =
      (if j = length (sy_conns s) then ReadingAuth else sy_conns s ! j)"
    if "j < Suc (length (sy_conns s))" for j
    using that by (auto simp: nth_append)
  have reg: "\<exists>j < Suc (length (sy_conns s)). \<exists>a. (sy_conns s @ [ReadingAuth]) ! j = Serving a e"
    if g: "registry_get (registry_of s) k = Some e" for k e
    using session_invD(7) [OF inv g] by (metis less_SucI nth_append)
  show ?thesis
    unfolding session_inv_def ok eqs length_append_singleton
  proof (intro conjI)
    show "\<forall>j < Suc (length (sy_conns s)). \<forall>k < Suc (length (sy_conns s)). \<forall>a b e.
        owned ((sy_conns s @ [ReadingAuth]) ! j) = Some (a, e) \<longrightarrow>
        owned ((sy_conns s @ [ReadingAuth]) ! k) = Some (b, e) \<longrightarrow> j = k"
      using session_invD(6) [OF inv] by (auto simp: at elim!: less_SucE split: if_splits)
  qed (use reg session_invD(1-7,9) [OF inv] in
      \<open>auto simp: at elim!: less_SucE split: if_splits dest: session_invD(8) [OF inv]\<close>)
qed

text \<open>One lemma per kind of step, then the step relation.\<close>

lemma conn_stepE:
  assumes "conn_step cfg i s c ev = Some s'"
  obtains
    (read) m where "c = ReadingAuth" "s' = set_conn i (on_auth_read cfg m) s"
  | (failed) "owned c = None" "s' = set_conn i (Finished ReplyFailed) s"
  | (rejected) a where "c = Rejecting a"
      "s' = set_conn i (Finished Rejected)
              ((with_state count_failed_auth s)\<lparr>sy_sent := sy_sent s @ [(a, reject_reply)]\<rparr>)"
  | (accepted) a where "c = Accepting a"
      "s' = (start_session i a s)\<lparr>sy_sent := sy_sent s @ [(a, accept_reply cfg a)]\<rparr>"
  | (entered) a e where "c = Registering a e" "s' = enter_session cfg i a e s"
  | (left) a e where "c = Serving a e" "s' = leave_session i a e s"
      "\<not> dr_running (snd (sy_drivers s ! ce_handle (clients_heap (heap_of s) ! e)))"
  using assms
  by (cases "(cfg, i, s, c, ev)" rule: conn_step.cases) (auto split: if_splits)

lemma on_auth_read_cases:
  "owned (on_auth_read cfg m) = None" "on_auth_read cfg m \<noteq> Serving a e"
  "on_auth_read cfg m = Accepting a \<Longrightarrow> validate_token cfg (ar_token a)"
  by (auto simp: on_auth_read_def split: option.splits sum.splits message.splits if_splits)

lemma session_inv_conn:
  assumes inv: "session_inv cfg s" and i: "i < length (sy_conns s)"
    and st: "conn_step cfg i s (sy_conns s ! i) ev = Some s'"
    and few: "length (clients_heap (heap_of s)) < 2 ^ 64"
  shows "session_inv cfg s'"
  using st
proof (cases rule: conn_stepE)
  case (rejected a)
  let ?s1 = "(with_state count_failed_auth s)\<lparr>sy_sent := sy_sent s @ [(a, reject_reply)]\<rparr>"
  have "core_grows s ?s1"
    using inv by (intro core_grows_counters) (auto simp: count_failed_auth_def)
  then have "session_inv cfg ?s1" by (rule session_inv_frame [OF inv]) simp
  then show ?thesis
    unfolding rejected(2) using i rejected(1) by (intro session_inv_set_conn) simp_all
qed (use inv i few on_auth_read_cases in \<open>auto intro: session_inv_set_conn
      session_inv_start_session session_inv_enter session_inv_leave\<close>)

lemma heap_grows_step:
  assumes "server_step cfg L s s'"
  shows "length (clients_heap (heap_of s)) \<le> length (clients_heap (heap_of s'))"
  using assms
proof cases
  case (session i ev)
  from session(2) show ?thesis
    by (cases rule: conn_stepE)
       (auto simp: start_session_def enter_session_def leave_session_def register_alloc_def
          register_insert_def Let_def heap_of_spawn_driver count_failed_auth_def
          split: prod.split option.split if_splits)
next
  case (driver h ev)
  then show ?thesis
    by (auto simp: driver_turn_def Let_def split: if_splits prod.splits option.splits)
next
  case (request pev p')
  then show ?thesis using same_sessions_step [OF request(2)] by (simp add: same_sessions_def)
qed (auto simp: count_connection_def)

lemma session_inv_step:
  assumes "server_step cfg L s s'" "session_inv cfg s" "length (clients_heap (heap_of s)) < 2 ^ 64"
  shows "session_inv cfg s'"
  using assms(1)
proof cases
  case accept
  let ?s1 = "with_state count_connection s"
  have "core_grows s (?s1\<lparr>sy_sent := sy_sent s\<rparr>)"
    using assms(2) by (intro core_grows_counters) (auto simp: count_connection_def)
  then have "session_inv cfg (?s1\<lparr>sy_sent := sy_sent s\<rparr>)"
    by (rule session_inv_frame [OF assms(2)]) simp
  then have "session_inv cfg ?s1" by (simp add: with_state_def)
  from session_inv_accept [OF this] show ?thesis using accept by simp
next
  case (session i ev)
  then show ?thesis using session_inv_conn assms(2,3) by blast
next
  case (driver h ev)
  then show ?thesis
    using core_grows_driver [OF assms(2) driver] session_inv_frame [OF assms(2)]
    by (auto simp: driver_turn_def Let_def split: if_splits prod.splits option.splits)
next
  case (request pev p')
  then show ?thesis
    using session_inv_frame [OF assms(2) core_grows_request [OF assms(2) request(2)]] by simp
next
  case (tick now)
  have "core_grows s ((with_state (\<lambda>st. st\<lparr>sv_heap := (sv_heap st)\<lparr>clock := now\<rparr>\<rparr>) s)
      \<lparr>sy_sent := sy_sent s\<rparr>)"
    using assms(2) by (intro core_grows_counters) auto
  from session_inv_frame [OF assms(2) this] show ?thesis
    using tick by (simp add: with_state_def)
qed

text \<open>The server is a machine that uses up session numbers.\<close>

abbreviation sessions_made :: "('u, 'h, 'r) sys \<Rightarrow> nat" where
  "sessions_made s \<equiv> length (clients_heap (heap_of s))"

definition fresh_server :: "server_config \<Rightarrow> ('u, 'h, 'r) sys \<Rightarrow> bool" where
  "fresh_server cfg s \<longleftrightarrow> (\<exists>now f. server_run cfg now f = Inr s)"

lemma reachable_from:
  "reachable cfg L s \<Longrightarrow> \<exists>s0. fresh_server cfg s0 \<and> (server_step cfg L)\<^sup>*\<^sup>* s0 s"
proof (induction rule: reachable.induct)
  case (start now f s)
  then show ?case by (auto simp: fresh_server_def)
next
  case (step s s')
  then show ?case by (meson rtranclp.rtrancl_into_rtrancl)
qed

interpretation sessions: bounded_invariant "fresh_server cfg" "server_step cfg L"
  "reachable cfg L" sessions_made "2 ^ 64" "session_inv cfg" for cfg L
proof unfold_locales
  fix s s'
  show "reachable cfg L s \<Longrightarrow> \<exists>s0. fresh_server cfg s0 \<and> (server_step cfg L)\<^sup>*\<^sup>* s0 s"
    by (rule reachable_from)
  show "fresh_server cfg s \<Longrightarrow> session_inv cfg s"
    using session_inv_start by (auto simp: fresh_server_def)
  show "server_step cfg L s s' \<Longrightarrow> sessions_made s \<le> sessions_made s'"
    by (rule heap_grows_step)
  then show "server_step cfg L s s' \<Longrightarrow> session_inv cfg s \<Longrightarrow> sessions_made s' < 2 ^ 64
      \<Longrightarrow> session_inv cfg s'"
    using session_inv_step by (metis le_less_trans)
qed

lemmas session_inv_reachable = sessions.inv_reached

section \<open>Requests beside sessions\<close>

text \<open>Every step but the proxy's leaves the requests and the gauges alone, and at most adds session
  objects with a gauge of zero.\<close>

definition extends :: "('u, 'h, 'r) sys \<Rightarrow> ('u, 'h, 'r) sys \<Rightarrow> bool" where
  "extends s s' \<longleftrightarrow>
     px_flights (sy_proxy s') = px_flights (sy_proxy s)
     \<and> active_connections (sv_metrics (state_of s')) = active_connections (sv_metrics (state_of s))
     \<and> (\<exists>new. clients_heap (heap_of s') = clients_heap (heap_of s) @ new
          \<and> (\<forall>c \<in> set new. cm_active_streams (ce_metrics c) = 0))"

lemma extends_same_heap:
  "px_flights (sy_proxy s') = px_flights (sy_proxy s)
    \<Longrightarrow> active_connections (sv_metrics (state_of s')) = active_connections (sv_metrics (state_of s))
    \<Longrightarrow> clients_heap (heap_of s') = clients_heap (heap_of s) \<Longrightarrow> extends s s'"
  by (simp add: extends_def)

lemma spawn_driver_proxy:
  "px_flights (sy_proxy (spawn_driver hb s)) = px_flights (sy_proxy s)"
  "sv_metrics (state_of (spawn_driver hb s)) = sv_metrics (state_of s)"
  by (simp_all add: spawn_driver_def with_state_def)

lemma extends_conn:
  assumes "conn_step cfg i s c ev = Some s'"
  shows "extends s s'"
  using assms
proof (cases rule: conn_stepE)
  case (accepted a)
  then show ?thesis
    by (auto simp: extends_def start_session_def register_alloc_def Let_def heap_of_spawn_driver
        spawn_driver_proxy client_metrics_new_def)
next
  case (entered a e)
  then show ?thesis
    by (auto simp: enter_session_def register_insert_def Let_def intro!: extends_same_heap
        split: option.split)
next
  case (left a e)
  then show ?thesis
    by (simp add: leave_session_def unregister_def Let_def extends_same_heap)
qed (auto simp: count_failed_auth_def intro!: extends_same_heap)

lemma extends_driver: "driver_turn h ev s = Some s' \<Longrightarrow> extends s s'"
  by (auto simp: driver_turn_def Let_def intro!: extends_same_heap
      split: if_splits prod.splits option.splits)

lemma gauge_inv_extends:
  assumes g: "gauge_inv (sy_proxy s)" and x: "extends s s'"
    and wf: "registry_wf (registry_of s') (heap_of s')"
  shows "gauge_inv (sy_proxy s')"
proof -
  from x obtain new where new: "clients_heap (heap_of s') = clients_heap (heap_of s) @ new"
    "\<forall>c \<in> set new. cm_active_streams (ce_metrics c) = 0"
    and fl: "px_flights (sy_proxy s') = px_flights (sy_proxy s)"
    unfolding extends_def by blast
  have same: "open_requests (sy_proxy s') = open_requests (sy_proxy s)"
    "open_requests_of (sy_proxy s') e = open_requests_of (sy_proxy s) e" for e
    by (simp_all add: open_requests_def open_requests_of_def fl)
  have zero: "open_requests_of (sy_proxy s) e = 0" if "length (clients_heap (heap_of s)) \<le> e" for e
    using g that by (fastforce simp: gauge_inv_def open_requests_of_def filter_empty_conv)
  show ?thesis
    unfolding gauge_inv_def same fl
  proof (intro conjI allI impI ballI)
    fix e assume "e < length (clients_heap (heap_of s'))"
    then show "cm_active_streams (ce_metrics (clients_heap (heap_of s') ! e))
        = word_of_nat (open_requests_of (sy_proxy s) e)"
      using g new zero [of e] by (cases "e < length (clients_heap (heap_of s))")
        (auto simp: gauge_inv_def nth_append)
  next
    fix f e assume "f \<in> set (px_flights (sy_proxy s))" "holds_gauge f = Some e"
    then show "e < length (clients_heap (heap_of s'))"
      using g new by (fastforce simp: gauge_inv_def)
  qed (use g x wf in \<open>auto simp: gauge_inv_def extends_def\<close>)
qed

lemma tenant_inv_extends:
  assumes t: "tenant_inv L domn (sy_proxy s)" and x: "extends s s'"
  shows "tenant_inv L domn (sy_proxy s')"
  using t x by (fastforce simp: tenant_inv_def extends_def well_routed_def nth_append)

definition requests_inv :: "server_config \<Rightarrow> ('u, 'h) http_lib \<Rightarrow> ('u, 'h, 'r) sys \<Rightarrow> bool" where
  "requests_inv cfg L s \<longleftrightarrow> gauge_inv (sy_proxy s) \<and> tenant_inv L (domain cfg) (sy_proxy s)"

lemma extends_step:
  assumes "server_step cfg L s s'" and "session_inv cfg s" and "session_inv cfg s'"
  obtains "extends s s'"
    | pev where "proxy_step L (domain cfg) (sy_proxy s) pev = Some (sy_proxy s')"
  using assms(1)
proof cases
  case (request pev p')
  then show thesis using that(2) by simp
next
  case (session i ev)
  then show thesis using that(1) extends_conn by blast
next
  case (driver h ev)
  then show thesis using that(1) extends_driver by blast
next
  case accept
  then have "extends s s'" by (auto simp: count_connection_def intro!: extends_same_heap)
  then show thesis by (rule that(1))
next
  case (tick now)
  then have "extends s s'" by (auto intro!: extends_same_heap)
  then show thesis by (rule that(1))
qed

lemma requests_inv_reachable:
  fixes s :: "('u, 'h, 'r) sys" and L :: "('u, 'h) http_lib"
  assumes "reachable cfg L s" "sessions_made s < 2 ^ 64" and laws: "http_laws L"
  shows "requests_inv cfg L s"
proof (rule sessions.also_reached [OF assms(1,2)])
  fix s :: "('u, 'h, 'r) sys"
  assume "fresh_server cfg s"
  then show "requests_inv cfg L s"
    by (auto simp: fresh_server_def requests_inv_def server_run_def gauge_inv_def tenant_inv_def
        server_state_new_def registry_wf_new metrics_new_def open_requests_def split: if_splits)
next
  fix s s' :: "('u, 'h, 'r) sys"
  assume step: "server_step cfg L s s'" and inv: "session_inv cfg s" "session_inv cfg s'"
    and IH: "requests_inv cfg L s"
  show "requests_inv cfg L s'"
  proof (rule extends_step [OF step inv])
    assume "extends s s'"
    then show ?thesis
      using IH gauge_inv_extends [OF _ _ session_invD(1) [OF inv(2)]] tenant_inv_extends
      unfolding requests_inv_def by blast
  next
    fix pev assume "proxy_step L (domain cfg) (sy_proxy s) pev = Some (sy_proxy s')"
    then show ?thesis
      using IH gauge_inv_step tenant_inv_step [OF laws _ session_invD(1) [OF inv(1)]]
      unfolding requests_inv_def by blast
  qed
qed

end
