(* ===== verification/Server_Safety.thy ===== *)
theory Server_Safety
  imports Sessions
begin

text \<open>
  What holds of the running server: in every reachable state of \<open>Sessions\<close>, under any
  interleaving of control-channel sessions, driver tasks and public requests, and as long as fewer
  than \<open>2^64\<close> sessions were made.
\<close>

section \<open>Drivers and their tasks\<close>

text \<open>The driver as it sees its shared counter.\<close>

definition driver_view :: "('u, 'h, 'r) sys \<Rightarrow> nat \<Rightarrow> driver" where
  "driver_view s h = (snd (sy_drivers s ! h))\<lparr>dr_missed := missed (heap_of s) ! h\<rparr>"

definition drivers_inv :: "('u, 'h, 'r) sys \<Rightarrow> bool" where
  "drivers_inv s \<longleftrightarrow> (\<forall>h < length (tasks (heap_of s)).
     receiver_alive (tasks (heap_of s) ! h) = dr_running (snd (sy_drivers s ! h))
     \<and> driver_inv (fst (sy_drivers s ! h)) (driver_view s h))"

text \<open>A step may add drivers that satisfy the invariant, and leaves the others' tasks alone but for
  abort requests.\<close>

definition drivers_kept :: "('u, 'h, 'r) sys \<Rightarrow> ('u, 'h, 'r) sys \<Rightarrow> bool" where
  "drivers_kept s s' \<longleftrightarrow>
     length (tasks (heap_of s)) \<le> length (tasks (heap_of s'))
     \<and> (\<forall>h < length (tasks (heap_of s)).
          receiver_alive (tasks (heap_of s') ! h) = receiver_alive (tasks (heap_of s) ! h)
          \<and> sy_drivers s' ! h = sy_drivers s ! h \<and> missed (heap_of s') ! h = missed (heap_of s) ! h)
     \<and> (\<forall>h. length (tasks (heap_of s)) \<le> h \<longrightarrow> h < length (tasks (heap_of s')) \<longrightarrow>
          receiver_alive (tasks (heap_of s') ! h) = dr_running (snd (sy_drivers s' ! h))
          \<and> driver_inv (fst (sy_drivers s' ! h)) (driver_view s' h))"

lemma drivers_inv_kept: "drivers_inv s \<Longrightarrow> drivers_kept s s' \<Longrightarrow> drivers_inv s'"
  unfolding drivers_inv_def drivers_kept_def driver_view_def by (metis linorder_not_le)

lemma receiver_alive_abort [simp]:
  "receiver_alive (tasks (handle_abort h hp) ! i) = receiver_alive (tasks hp ! i)"
  by (cases "i = h"; cases "h < length (tasks hp)")
     (simp_all add: handle_abort_def list_update_beyond)

lemma drivers_kept_same:
  "tasks (heap_of s') = tasks (heap_of s) \<Longrightarrow> missed (heap_of s') = missed (heap_of s)
    \<Longrightarrow> sy_drivers s' = sy_drivers s \<Longrightarrow> drivers_kept s s'"
  by (simp add: drivers_kept_def)

lemma driver_new_view:
  "driver_inv hb ((driver_new now)\<lparr>dr_missed := 0\<rparr>)" "dr_running (driver_new now)"
  using driver_inv_new [of hb now] by (simp_all add: driver_new_def)

lemma drivers_kept_conn:
  assumes inv: "session_inv cfg s" and st: "conn_step cfg i s c ev = Some s'"
  shows "drivers_kept s s'"
  using st
proof (cases rule: conn_stepE)
  case (accepted a)
  then show ?thesis
    using session_invD(2-4) [OF inv] driver_new_view
    by (auto simp: drivers_kept_def driver_view_def start_session_def register_alloc_def Let_def
        spawn_driver_def nth_append less_Suc_eq)
next
  case (entered a e)
  then show ?thesis
    by (auto simp: drivers_kept_def enter_session_def register_insert_def Let_def split: option.split)
next
  case (left a e)
  then show ?thesis
    by (simp add: leave_session_def unregister_def Let_def drivers_kept_same)
qed (auto simp: count_failed_auth_def intro!: drivers_kept_same)

lemma driver_inv_activity: "driver_inv hb (d\<lparr>dr_last_activity := x\<rparr>) \<longleftrightarrow> driver_inv hb d"
  by (simp add: driver_inv_def)

lemma drivers_inv_turn:
  assumes inv: "session_inv cfg s" and d: "drivers_inv s" and st: "driver_turn h ev s = Some s'"
  shows "drivers_inv s'"
proof -
  obtain hb d0 where d0: "sy_drivers s ! h = (hb, d0)" by (cases "sy_drivers s ! h")
  let ?d = "d0\<lparr>dr_missed := missed (heap_of s) ! h, dr_last_activity := activity (heap_of s) ! h\<rparr>"
  from st d0 obtain d' where h: "h < length (sy_drivers s)" and d': "drive hb ?d ev = Some d'"
    and s': "s' = (with_state (\<lambda>st. st\<lparr>sv_heap := (sv_heap st)\<lparr>
                   missed := (missed (sv_heap st))[h := dr_missed d'],
                   activity := (activity (sv_heap st))[h := dr_last_activity d'],
                   tasks := (tasks (sv_heap st))[h := (tasks (sv_heap st) ! h)
                              \<lparr>receiver_alive := dr_running d'\<rparr>]\<rparr>\<rparr>) s)
                  \<lparr>sy_drivers := (sy_drivers s)[h := (hb, d')]\<rparr>"
    by (auto simp: driver_turn_def Let_def split: if_splits option.splits)
  have "driver_inv hb (d0\<lparr>dr_missed := missed (heap_of s) ! h\<rparr>)"
    using d h d0 session_invD(2) [OF inv] by (auto simp: drivers_inv_def driver_view_def)
  then have "driver_inv hb ?d" using driver_inv_activity by fastforce
  then have "driver_inv hb d'" using driver_inv_step d' by blast
  then show ?thesis
    using d h s' session_invD(2-4) [OF inv] by (simp add: drivers_inv_def driver_view_def nth_update_at)
qed

lemma drivers_inv_reachable:
  fixes s :: "('u, 'h, 'r) sys" and L :: "('u, 'h) http_lib"
  assumes "reachable cfg L s" "sessions_made s < 2 ^ 64"
  shows "drivers_inv s"
proof (rule sessions.also_reached [OF assms])
  fix s :: "('u, 'h, 'r) sys"
  assume "fresh_server cfg s"
  then show "drivers_inv s"
    by (auto simp: fresh_server_def server_run_def drivers_inv_def server_state_new_def
        split: if_splits)
next
  fix s s' :: "('u, 'h, 'r) sys"
  assume step: "server_step cfg L s s'" and inv: "session_inv cfg s" and IH: "drivers_inv s"
  from step show "drivers_inv s'"
  proof cases
    case (session i ev)
    then show ?thesis using drivers_inv_kept drivers_kept_conn [OF inv] IH by blast
  next
    case (driver h ev)
    then show ?thesis using drivers_inv_turn [OF inv] IH by blast
  next
    case (request pev p')
    then have "drivers_kept s s'"
      using same_sessions_step [OF request(2)] by (simp add: same_sessions_def drivers_kept_same)
    then show ?thesis using drivers_inv_kept IH by blast
  qed (use IH in \<open>auto simp: drivers_inv_def driver_view_def count_connection_def\<close>)
qed

section \<open>Steps that can be taken\<close>

abbreviation server_steps :: "server_config \<Rightarrow> ('u, 'h) http_lib \<Rightarrow> ('u, 'h, 'r) sys
    \<Rightarrow> ('u, 'h, 'r) sys \<Rightarrow> bool" where
  "server_steps cfg L \<equiv> (server_step cfg L)\<^sup>*\<^sup>*"

lemma reachable_steps: "server_steps cfg L s s' \<Longrightarrow> reachable cfg L s \<Longrightarrow> reachable cfg L s'"
  by (induction rule: rtranclp_induct) (auto intro: reachable.step)


text \<open>A new connection whose first message is an authentication request with a valid token, up to
  the positive reply.\<close>

lemma steps_to_accepting:
  assumes "validate_token cfg (ar_token a)"
  shows "server_steps cfg L s ((with_state count_connection s)\<lparr>sy_conns := sy_conns s @ [Accepting a]\<rparr>)"
proof -
  let ?s1 = "(with_state count_connection s)\<lparr>sy_conns := sy_conns s @ [ReadingAuth]\<rparr>"
  have "server_step cfg L s ?s1" by (rule server_step.accept)
  moreover have "server_step cfg L ?s1
      ((with_state count_connection s)\<lparr>sy_conns := sy_conns s @ [Accepting a]\<rparr>)"
    by (rule server_step.session [where i = "length (sy_conns s)"
          and ev = "AuthRead (Some (Inr (AuthReq a)))"])
       (use assms in \<open>simp_all add: on_auth_read_def set_conn_def with_state_def\<close>)
  ultimately show ?thesis by (meson rtranclp.rtrancl_into_rtrancl rtranclp.rtrancl_refl)
qed

lemma start_session_after_accepting:
  fixes s :: "('u, 'h, 'r) sys"
  assumes "validate_token cfg (ar_token a)"
  defines "s2 \<equiv> (with_state count_connection s)\<lparr>sy_conns := sy_conns s @ [Accepting a]\<rparr>"
  shows "server_steps cfg L s
    ((start_session (length (sy_conns s)) a s2)\<lparr>sy_sent := sy_sent s @ [(a, accept_reply cfg a)]\<rparr>)"
proof -
  have "server_step cfg L s2
      ((start_session (length (sy_conns s)) a s2)\<lparr>sy_sent := sy_sent s @ [(a, accept_reply cfg a)]\<rparr>)"
    by (rule server_step.session [where i = "length (sy_conns s)" and ev = "ReplyWritten True"])
       (simp_all add: s2_def)
  with steps_to_accepting [OF assms(1), of L s] show ?thesis
    unfolding s2_def by (meson rtranclp.rtrancl_into_rtrancl)
qed

lemma registration_steps:
  assumes "reachable cfg L s" and "Suc (length (clients_heap (heap_of s))) < 2 ^ 64"
    and "validate_token cfg (ar_token a)" and "ar_client_id a \<notin> set RESERVED_SUBDOMAINS"
  shows "\<exists>s' i e. server_steps cfg L s s' \<and> i < length (sy_conns s') \<and> sy_conns s' ! i = Serving a e
    \<and> registry_get (registry_of s') (ar_client_id a) = Some e
    \<and> (a, accept_reply cfg a) \<in> set (sy_sent s')
    \<and> length (clients_heap (heap_of s')) = Suc (length (clients_heap (heap_of s)))
    \<and> e = length (clients_heap (heap_of s))
    \<and> (\<forall>j < length (sy_conns s). j < length (sy_conns s') \<and> sy_conns s' ! j = sy_conns s ! j)"
proof -
  let ?n = "length (sy_conns s)"
  let ?s2 = "(with_state count_connection s)\<lparr>sy_conns := sy_conns s @ [Accepting a]\<rparr>"
  define s3 where "s3 = (start_session ?n a ?s2)\<lparr>sy_sent := sy_sent s @ [(a, accept_reply cfg a)]\<rparr>"
  have to3: "server_steps cfg L s s3"
    using start_session_after_accepting [OF assms(3)] by (simp add: s3_def)
  have "s3 = (start_session ?n a ?s2)\<lparr>sy_sent := sy_sent ?s2 @ [(a, accept_reply cfg a)]\<rparr>"
    by (simp add: s3_def)
  then obtain e where e: "sy_conns s3 ! ?n = Registering a e" "length (sy_conns s3) = Suc ?n"
    "length (clients_heap (heap_of s3)) = Suc (length (clients_heap (heap_of s)))"
    "e = length (clients_heap (heap_of s))" "\<And>j. j < ?n \<Longrightarrow> sy_conns s3 ! j = sy_conns s ! j"
  proof (cases rule: start_session_cases)
    case (fresh r hp)
    have "length (clients_heap hp) = Suc (length (clients_heap (heap_of s)))"
      using fresh(1,2) by (auto simp: register_alloc_def heap_of_spawn_driver count_connection_def
          Let_def)
    then show thesis
      using that [of "length (clients_heap (heap_of ?s2))"] fresh(3)
      by (simp add: nth_append count_connection_def)
  qed (use assms(4) in simp)
  have r3: "reachable cfg L s3" by (rule reachable_steps [OF to3 assms(1)])
  then have inv: "session_inv cfg s3"
    using session_inv_reachable e(3) assms(2) by fastforce
  have ok: "owner_ok cfg s3 a e" using session_invD(5) [OF inv, of ?n a e] e by simp
  have "server_step cfg L s3 (enter_session cfg ?n a e s3)"
    by (rule server_step.session [where i = ?n and ev = Insert]) (use e in simp_all)
  with to3 have "server_steps cfg L s (enter_session cfg ?n a e s3)" by simp
  moreover have "dm_wf (clients (registry_of s3))"
    using session_invD(1) [OF inv] by (simp add: registry_wf_def)
  note E = enter_session_simps [where cfg = cfg and i = ?n, OF _ _ this refl, of e a]
  ultimately have "server_steps cfg L s (enter_session cfg ?n a e s3)
    \<and> ?n < length (sy_conns (enter_session cfg ?n a e s3))
    \<and> sy_conns (enter_session cfg ?n a e s3) ! ?n = Serving a e
    \<and> registry_get (registry_of (enter_session cfg ?n a e s3)) (ar_client_id a) = Some e
    \<and> (a, accept_reply cfg a) \<in> set (sy_sent (enter_session cfg ?n a e s3))
    \<and> length (clients_heap (heap_of (enter_session cfg ?n a e s3)))
        = Suc (length (clients_heap (heap_of s)))
    \<and> e = length (clients_heap (heap_of s))
    \<and> (\<forall>j < ?n. j < length (sy_conns (enter_session cfg ?n a e s3))
        \<and> sy_conns (enter_session cfg ?n a e s3) ! j = sy_conns s ! j)"
    using E ok e(2-5) by (simp add: owner_ok_def split: option.split)
  then show ?thesis by blast
qed

abbreviation demo_cfg :: server_config where
  "demo_cfg \<equiv> server_config_default\<lparr>domain := ''t.io'',
     dashboard_auth := \<lparr>da_token = ''pw'', da_session_ttl_secs = 60\<rparr>\<rparr>"

text \<open>A library of URIs that are their own text, and of headers with one value each.\<close>

definition demo_lib :: "(string, string \<Rightarrow> string option) http_lib" where
  "demo_lib = \<lparr>uri_path = takeWhile (\<lambda>c. c \<noteq> CHR ''?''),
     uri_query = (\<lambda>u. case dropWhile (\<lambda>c. c \<noteq> CHR ''?'') u of [] \<Rightarrow> None | _ # q \<Rightarrow> Some q),
     uri_parse = Some, header_str = (\<lambda>h k. h k), header_insert = (\<lambda>h k v. h(k \<mapsto> v)),
     header_value_ok = (\<lambda>_. True)\<rparr>"

lemma demo_header: "header_str demo_lib h k = h k"
  by (simp add: demo_lib_def)

lemma demo_http_laws: "http_laws demo_lib"
proof -
  have "takeWhile (\<lambda>c. c \<noteq> CHR ''?'') u @ (case (case dropWhile (\<lambda>c. c \<noteq> CHR ''?'') u of
      [] \<Rightarrow> None | _ # q \<Rightarrow> Some q) of Some q \<Rightarrow> ''?'' @ q | None \<Rightarrow> []) = u" for u
  proof (cases "dropWhile (\<lambda>c. c \<noteq> CHR ''?'') u")
    case Nil
    then show ?thesis
      using takeWhile_dropWhile_id [of "\<lambda>c. c \<noteq> CHR ''?''" u] unfolding Nil by simp
  next
    case (Cons d q)
    then have "d = CHR ''?''" using hd_dropWhile [of "\<lambda>c. c \<noteq> CHR ''?''" u] by simp
    then show ?thesis
      using Cons takeWhile_dropWhile_id [of "\<lambda>c. c \<noteq> CHR ''?''" u] by simp
  qed
  then show ?thesis by (simp add: http_laws_def demo_lib_def)
qed



definition demo_start :: "(string, string \<Rightarrow> string option, nat) sys" where
  "demo_start = (case server_run demo_cfg 0 demo_fs of Inr s \<Rightarrow> s | Inl _ \<Rightarrow> undefined)"

lemma demo_start_eq:
  "demo_start = \<lparr>sy_proxy = \<lparr>px_state = server_state_new 0 100, px_flights = []\<rparr>,
     sy_drivers = [], sy_conns = [], sy_sent = [], sy_fs = demo_fs\<rparr>"
  by (simp add: demo_start_def server_run_def route_manager_def server_config_default_def
      traefik_default_def rate_limit_default_def)

lemma demo_reachable: "reachable demo_cfg L demo_start"
  by (rule reachable.start [of _ 0 demo_fs])
     (simp add: demo_start_eq server_run_def route_manager_def server_config_default_def
       traefik_default_def rate_limit_default_def)

lemma demo_start_heap: "clients_heap (heap_of demo_start) = []"
  by (simp add: demo_start_eq server_state_new_def)

abbreviation demo_req :: auth_req where
  "demo_req \<equiv> \<lparr>ar_client_id = ''app'', ar_token = ''x'', ar_version = Some ''1''\<rparr>"

lemma demo_token: "validate_token demo_cfg t"
  by (simp add: validate_token_def server_config_default_def)

lemma demo_served:
  obtains s :: "(string, string \<Rightarrow> string option, nat) sys" and i e
  where "reachable demo_cfg demo_lib s" "i < length (sy_conns s)"
    "sy_conns s ! i = Serving demo_req e" "registry_get (registry_of s) ''app'' = Some e"
    "length (clients_heap (heap_of s)) < 2 ^ 64"
proof -
  obtain s i e where s: "server_steps demo_cfg demo_lib demo_start s" "i < length (sy_conns s)"
    "sy_conns s ! i = Serving demo_req e" "registry_get (registry_of s) ''app'' = Some e"
    "length (clients_heap (heap_of s)) < 2 ^ 64"
    using registration_steps [OF demo_reachable, of demo_req demo_lib] demo_token
    by (fastforce simp: demo_start_heap RESERVED_SUBDOMAINS_def)
  show thesis by (rule that [OF reachable_steps [OF s(1) demo_reachable] s(2-5)])
qed

section \<open>Properties\<close>



text \<open>C4: Whoever is reachable under an id has earned it: a registered id is not reserved, its
  session belongs to exactly one control-channel connection, which is being served, and that
  connection named this id, gave a valid token and was told of its success.\<close>

theorem registered_sessions_served:
  assumes "reachable cfg L s" and "length (clients_heap (heap_of s)) < 2 ^ 64"
    and "registry_get (registry_of s) k = Some e"
  shows "k \<notin> set RESERVED_SUBDOMAINS
    \<and> (\<exists>!i. i < length (sy_conns s) \<and> (\<exists>a. sy_conns s ! i = Serving a e))
    \<and> (\<exists>i < length (sy_conns s). \<exists>a. sy_conns s ! i = Serving a e \<and> ar_client_id a = k
         \<and> validate_token cfg (ar_token a) \<and> (a, accept_reply cfg a) \<in> set (sy_sent s))"
proof -
  note inv = session_inv_reachable [OF assms(1,2)]
  obtain i a where i: "i < length (sy_conns s)" "sy_conns s ! i = Serving a e"
    using session_invD(7) [OF inv assms(3)] by blast
  then have ok: "owner_ok cfg s a e" using session_invD(5) [OF inv, of i a e] by simp
  have k: "ar_client_id a = k" "k \<notin> set RESERVED_SUBDOMAINS"
    using ok session_invD(1) [OF inv] assms(3)
    by (auto simp: owner_ok_def registry_wf_def registry_get_def)
  have "j = i" if "j < length (sy_conns s)" "sy_conns s ! j = Serving b e" for j b
    using session_invD(6) [OF inv that(1) i(1), of b e a] that i by simp
  then show ?thesis using i ok k by (auto simp: owner_ok_def)
qed

theorem registered_sessions_served_witness:
  "\<exists>s :: (string, string \<Rightarrow> string option, nat) sys. \<exists>i a e. reachable demo_cfg demo_lib s
    \<and> sy_conns s ! i = Serving a e \<and> ar_client_id a = ''app''"
proof -
  obtain s :: "(string, string \<Rightarrow> string option, nat) sys" and i e
    where s: "reachable demo_cfg demo_lib s" "registry_get (registry_of s) ''app'' = Some e"
      "length (clients_heap (heap_of s)) < 2 ^ 64"
    by (rule demo_served)
  from registered_sessions_served [OF s(1,3,2)] s(1) show ?thesis by blast
qed

lemma driver_turn_frame:
  assumes "driver_turn h ev s = Some s'"
  shows "clients_heap (heap_of s') = clients_heap (heap_of s)" "registry_of s' = registry_of s"
    "sy_conns s' = sy_conns s" "sy_sent s' = sy_sent s"
  using assms by (auto simp: driver_turn_def Let_def split: if_splits prod.splits option.splits)

lemma cancel_turn:
  assumes "h < length (sy_drivers s)" "abort_requested (tasks (heap_of s) ! h)"
    "dr_running (snd (sy_drivers s ! h))"
  obtains s1 where "driver_turn h Cancelled s = Some s1" "\<not> dr_running (snd (sy_drivers s1 ! h))"
proof -
  have "driver_turn h Cancelled s \<noteq> None"
    using assms by (auto simp: driver_turn_def Let_def split: prod.split)
  then obtain s1 where s1: "driver_turn h Cancelled s = Some s1" by blast
  then have "\<not> dr_running (snd (sy_drivers s1 ! h))"
    using assms by (auto simp: driver_turn_def Let_def split: prod.splits)
  with s1 show thesis by (rule that)
qed


lemma demo_superseded:
  obtains s :: "(string, string \<Rightarrow> string option, nat) sys" and i e
  where "reachable demo_cfg demo_lib s" "i < length (sy_conns s)"
    "sy_conns s ! i = Serving demo_req e" "registry_get (registry_of s) ''app'' \<noteq> Some e"
    "length (clients_heap (heap_of s)) < 2 ^ 64"
proof -
  have v: "validate_token demo_cfg (ar_token demo_req)" "ar_client_id demo_req \<notin> set RESERVED_SUBDOMAINS"
    by (simp_all add: demo_token RESERVED_SUBDOMAINS_def)
  have "Suc (length (clients_heap (heap_of demo_start))) < 2 ^ 64" by (simp add: demo_start_heap)
  from registration_steps [OF demo_reachable [of demo_lib] this v]
  obtain s1 :: "(string, string \<Rightarrow> string option, nat) sys" and i e
    where s1: "server_steps demo_cfg demo_lib demo_start s1" "i < length (sy_conns s1)"
      "sy_conns s1 ! i = Serving demo_req e" "length (clients_heap (heap_of s1)) = 1" "e = 0"
    by (auto simp: demo_start_heap)
  have r1: "reachable demo_cfg demo_lib s1" by (rule reachable_steps [OF s1(1) demo_reachable])
  have "Suc (length (clients_heap (heap_of s1))) < 2 ^ 64" using s1(4) by simp
  from registration_steps [OF r1 this v] obtain s2 j e'
    where s2: "server_steps demo_cfg demo_lib s1 s2" "registry_get (registry_of s2) ''app'' = Some e'"
      "e' = 1" "length (clients_heap (heap_of s2)) = 2"
      "i < length (sy_conns s2)" "sy_conns s2 ! i = sy_conns s1 ! i"
    using s1(2,4) by auto
  show thesis
    by (rule that [OF reachable_steps [OF s2(1) r1] s2(5)]) (use s1 s2 in auto)
qed


text \<open>A client that asks for a reserved id with a valid token is told of its success and the
  host it would have, and is then dropped: nothing is registered, and its driver is told to stop.
  The check of the id comes after the reply.\<close>

theorem reserved_client_told_ok:
  assumes "reachable cfg L s" and "validate_token cfg (ar_token a)"
    and "ar_client_id a \<in> set RESERVED_SUBDOMAINS"
  shows "\<exists>s'. server_steps cfg L s s'
    \<and> sy_sent s' = sy_sent s @ [(a, accept_reply cfg a)] \<and> as_success (accept_reply cfg a)
    \<and> sy_conns s' = sy_conns s @ [Finished ReservedName]
    \<and> registry_of s' = registry_of s
    \<and> abort_requested (tasks (heap_of s') ! length (tasks (heap_of s)))"
proof -
  let ?n = "length (sy_conns s)"
  let ?s2 = "(with_state count_connection s)\<lparr>sy_conns := sy_conns s @ [Accepting a]\<rparr>"
  define s3 where "s3 = (start_session ?n a ?s2)\<lparr>sy_sent := sy_sent s @ [(a, accept_reply cfg a)]\<rparr>"
  have to3: "server_steps cfg L s s3"
    using start_session_after_accepting [OF assms(2)] by (simp add: s3_def)
  have "s3 = (start_session ?n a ?s2)\<lparr>sy_sent := sy_sent ?s2 @ [(a, accept_reply cfg a)]\<rparr>"
    by (simp add: s3_def)
  then have "sy_sent s3 = sy_sent s @ [(a, accept_reply cfg a)]
    \<and> sy_conns s3 = sy_conns s @ [Finished ReservedName] \<and> registry_of s3 = registry_of s
    \<and> abort_requested (tasks (heap_of s3) ! length (tasks (heap_of s)))"
  proof (cases rule: start_session_cases)
    case reserved
    then show ?thesis
      by (simp add: count_connection_def handle_abort_at heap_of_spawn_driver)
  qed (use assms(3) in simp)
  with to3 show ?thesis by (intro exI [of _ s3]) (simp add: accept_reply_def)
qed

theorem reserved_client_told_ok_witness:
  "\<exists>s'. server_steps demo_cfg demo_lib demo_start s' \<and> sy_conns s' = [Finished ReservedName]"
  using reserved_client_told_ok [OF demo_reachable, of "demo_req\<lparr>ar_client_id := ''api''\<rparr>" demo_lib]
    demo_token
  by (fastforce simp: demo_start_eq RESERVED_SUBDOMAINS_def)

text \<open>The requests that wait at an await, and those abandoned at one.\<close>

definition waiting_requests :: "('u, 'h, 'r) flight list \<Rightarrow> nat" where
  "waiting_requests fs = length (filter (\<lambda>f. case f of Waiting _ _ \<Rightarrow> True | _ \<Rightarrow> False) fs)"

definition abandoned_requests :: "('u, 'h, 'r) flight list \<Rightarrow> nat" where
  "abandoned_requests fs = length (filter (\<lambda>f. case f of Abandoned _ \<Rightarrow> True | _ \<Rightarrow> False) fs)"

lemma open_requests_split:
  "open_requests p = waiting_requests (px_flights p) + abandoned_requests (px_flights p)"
proof -
  have "length (filter (\<lambda>f. holds_gauge f \<noteq> None) fs) = waiting_requests fs + abandoned_requests fs"
    for fs :: "('u, 'h, 'r) flight list"
    by (induction fs) (auto simp: waiting_requests_def abandoned_requests_def split: flight.split)
  then show ?thesis by (simp add: open_requests_def)
qed

text \<open>C19: The gauges of the dashboard count what they should as long as no public connection is
  dropped in mid-request: \<open>active_connections\<close> is the number of requests in flight plus one for
  every request whose future was dropped at an await, since then and for ever; and each session's
  \<open>active_streams\<close> is its share of them. An answered request, whatever the answer, has left
  both gauges.\<close>

theorem gauges_count_requests:
  assumes "reachable cfg L s" and "length (clients_heap (heap_of s)) < 2 ^ 64" and "http_laws L"
  shows "active_connections (sv_metrics (state_of s))
      = word_of_nat (waiting_requests (px_flights (sy_proxy s))
          + abandoned_requests (px_flights (sy_proxy s)))
    \<and> (\<forall>e < length (clients_heap (heap_of s)).
         cm_active_streams (ce_metrics (clients_heap (heap_of s) ! e))
           = word_of_nat (open_requests_of (sy_proxy s) e))"
  using requests_inv_reachable [OF assms]
  by (simp add: requests_inv_def gauge_inv_def open_requests_split)

theorem gauges_count_requests_witness:
  "active_connections (sv_metrics (state_of demo_start)) = 0"
  using gauges_count_requests [OF demo_reachable _ demo_http_laws]
  by (simp add: demo_start_eq server_state_new_def waiting_requests_def abandoned_requests_def)

text \<open>C8: No request ever reaches another client than the one its \<open>Host\<close> names, through any
  takeover: while a request is under way, also once it has been rewritten for forwarding, it routes
  to a client id, and the session object it holds was made for exactly that id.\<close>

theorem requests_stay_with_their_client:
  assumes "reachable cfg L s" and "length (clients_heap (heap_of s)) < 2 ^ 64" and "http_laws L"
    and "Waiting w fl \<in> set (px_flights (sy_proxy s))"
  shows "extract_routing L (fl_request fl) (domain cfg) = Some (fl_client fl, fl_path fl)
    \<and> fl_entry fl < length (clients_heap (heap_of s))
    \<and> ce_client_id (clients_heap (heap_of s) ! fl_entry fl) = fl_client fl"
proof -
  have "well_routed L (domain cfg) (state_of s) fl"
    using requests_inv_reachable [OF assms(1-3)] assms(4)
    unfolding requests_inv_def tenant_inv_def by force
  then show ?thesis by (simp add: well_routed_def)
qed

text \<open>A session the registry leads to, seen as alive.\<close>

lemma alive_session_runs:
  assumes "reachable cfg L s" and "sessions_made s < 2 ^ 64"
    and "registry_get (registry_of s) k = Some e" and "is_alive (heap_of s) e"
  shows "dr_running (snd (sy_drivers s ! ce_handle (clients_heap (heap_of s) ! e)))
    \<and> (ce_supports_heartbeat (clients_heap (heap_of s) ! e) \<longrightarrow>
         unat (missed (heap_of s) ! ce_missed_heartbeats (clients_heap (heap_of s) ! e)) < 2)"
proof -
  let ?c = "clients_heap (heap_of s) ! e"
  have wf: "registry_wf (registry_of s) (heap_of s)"
    by (rule session_invD(1) [OF session_inv_reachable [OF assms(1,2)]])
  then have "ce_handle ?c < length (tasks (heap_of s))"
    using assms(3) registry_wf_handle by (auto simp: registry_wf_def registry_get_def)
  then have "receiver_alive (tasks (heap_of s) ! ce_handle ?c)
      = dr_running (snd (sy_drivers s ! ce_handle ?c))"
    using drivers_inv_reachable [OF assms(1,2)] by (simp add: drivers_inv_def)
  then show ?thesis
    using assms(4) by (auto simp: is_alive_def Let_def handle_is_closed_def word_le_nat_alt
        TAKEOVER_AFTER_MISSED_HEARTBEATS_def split: if_splits)
qed

text \<open>A client that the dashboard lists as healthy is really being served: the loop of its
  driver is running, and if it supports heartbeats fewer than two probes in a row have failed.\<close>

theorem healthy_means_running:
  assumes "reachable cfg L s" and "length (clients_heap (heap_of s)) < 2 ^ 64"
    and "registry_get (registry_of s) k = Some e" and "is_alive (heap_of s) e"
  shows "dr_running (snd (sy_drivers s ! ce_handle (clients_heap (heap_of s) ! e)))
    \<and> (ce_supports_heartbeat (clients_heap (heap_of s) ! e) \<longrightarrow>
         unat (missed (heap_of s) ! ce_missed_heartbeats (clients_heap (heap_of s) ! e)) < 2)"
  by (rule alive_session_runs [OF assms])

definition demo_accepted :: "(string, string \<Rightarrow> string option, nat) sys" where
  "demo_accepted = (start_session 0 demo_req ((with_state count_connection demo_start)
          \<lparr>sy_conns := sy_conns demo_start @ [Accepting demo_req]\<rparr>))
       \<lparr>sy_sent := sy_sent demo_start @ [(demo_req, accept_reply demo_cfg demo_req)]\<rparr>"

definition demo_registered :: "(string, string \<Rightarrow> string option, nat) sys" where
  "demo_registered = enter_session demo_cfg 0 demo_req 0 demo_accepted"

lemma demo_start_conns: "sy_conns demo_start = []"
  by (simp add: demo_start_eq)

lemma demo_accepted_conns: "sy_conns demo_accepted = [Registering demo_req 0]"
  by (simp add: demo_accepted_def start_session_def register_alloc_def Let_def demo_start_conns
      RESERVED_SUBDOMAINS_def demo_start_heap heap_of_spawn_driver count_connection_def)

lemma demo_registered_reachable: "reachable demo_cfg L demo_registered"
proof -
  have "server_steps demo_cfg L demo_start demo_accepted"
    unfolding demo_accepted_def
    using start_session_after_accepting [where a = demo_req and s = demo_start, OF demo_token]
    by (simp only: demo_start_conns list.size)
  then have "reachable demo_cfg L demo_accepted" by (rule reachable_steps [OF _ demo_reachable])
  moreover have "server_step demo_cfg L demo_accepted demo_registered"
    by (rule server_step.session [where i = 0 and ev = Insert])
       (simp_all only: demo_accepted_conns nth_Cons_0 conn_step.simps demo_registered_def list.size
         plus_nat.add_0 zero_less_Suc add_Suc_shift)
  ultimately show ?thesis by (rule reachable.step)
qed

lemma demo_accepted_state:
  "registry_of demo_accepted = \<lparr>clients = dm_empty, next_session = 2\<rparr>"
  "heap_of demo_accepted = \<lparr>clock = 0, tasks = [\<lparr>receiver_alive = True, abort_requested = False\<rparr>],
     activity = [Some 0], missed = [0], clients_heap = [\<lparr>ce_client_id = ''app'', ce_session_id = 1,
       ce_handle = 0, ce_connected_at = 0, ce_last_activity = 0, ce_missed_heartbeats = 0,
       ce_metrics = client_metrics_new, ce_supports_heartbeat = True\<rparr>]\<rparr>"
  by (simp_all add: demo_accepted_def start_session_def register_alloc_def Let_def
      RESERVED_SUBDOMAINS_def spawn_driver_def demo_start_eq server_state_new_def registry_new_def
      count_connection_def supports_heartbeat_def)

lemma demo_registered_facts:
  "registry_get (registry_of demo_registered) ''app'' = Some 0"
  "is_alive (heap_of demo_registered) 0" "length (clients_heap (heap_of demo_registered)) = 1"
  by (simp_all add: demo_registered_def enter_session_def register_insert_def Let_def
      demo_accepted_state registry_get_def dm_empty_def dm_get_def dm_put_def is_alive_def
      handle_is_closed_def TAKEOVER_AFTER_MISSED_HEARTBEATS_def elapsed_def from_secs_def
      SESSION_STALE_SECS_def HEARTBEAT_TIMEOUT_SECS_def)

theorem healthy_means_running_witness:
  "dr_running (snd (sy_drivers demo_registered
     ! ce_handle (clients_heap (heap_of demo_registered) ! 0)))"
  using healthy_means_running [OF demo_registered_reachable _ demo_registered_facts(1,2)]
  by (simp add: demo_registered_facts)

abbreviation demo_request :: "(string, string \<Rightarrow> string option) http_request" where
  "demo_request \<equiv> \<lparr>rq_method = ''GET'', rq_uri = ''/a?b'',
     rq_headers = [''host'' \<mapsto> ''app.t.io:80''], rq_body = []\<rparr>"

definition demo_requested :: "(string, string \<Rightarrow> string option, nat) sys" where
  "demo_requested = (case proxy_step demo_lib ''t.io'' (sy_proxy demo_registered) (Arrive demo_request) of
     Some p \<Rightarrow> demo_registered\<lparr>sy_proxy := p\<rparr> | None \<Rightarrow> demo_registered)"

lemma demo_requested_reachable: "reachable demo_cfg demo_lib demo_requested"
proof -
  obtain p where p: "proxy_step demo_lib ''t.io'' (sy_proxy demo_registered) (Arrive demo_request) = Some p"
    by (cases "proxy_begin demo_lib ''t.io'' demo_request (state_of demo_registered)
          :: (string, string \<Rightarrow> string option, nat) flight \<times> server_state") simp
  have "server_step demo_cfg demo_lib demo_registered demo_requested"
    unfolding demo_requested_def p option.case
    by (rule server_step.request [where pev = "Arrive demo_request"])
       (use p in \<open>simp_all add: dispatch_def host_no_port_takeWhile demo_lib_def\<close>)
  then show ?thesis by (rule reachable.step [OF demo_registered_reachable])
qed

lemma demo_routing: "extract_routing demo_lib demo_request ''t.io'' = Some (''app'', ''/a'')"
  by (simp add: extract_routing_Some demo_lib_def host_no_port_takeWhile)

lemma demo_requested_flights:
  "px_flights (sy_proxy demo_requested) = [Waiting AwaitOpen \<lparr>fl_client = ''app'', fl_path = ''/a'',
     fl_entry = 0, fl_request = demo_request\<rparr>]"
proof -
  have "px_flights (sy_proxy demo_registered) = []" "sv_limiter (state_of demo_registered) = rate_limiter_new 100"
    by (simp_all add: demo_registered_def enter_session_def register_insert_def Let_def
        demo_accepted_def start_session_def register_alloc_def spawn_driver_def demo_start_eq
        server_state_new_def count_connection_def with_state_def set_conn_def
        split: option.split)
  moreover obtain rl where "check (clock (heap_of demo_registered)) ''app'' (rate_limiter_new 100) = (True, rl)"
    by (simp add: check_def rate_limiter_new_def dm_get_def dm_empty_def as_secs_def)
  ultimately show ?thesis
    by (simp add: demo_requested_def proxy_begin_def count_request_def demo_routing
        demo_registered_facts)
qed

theorem requests_stay_with_their_client_witness:
  "ce_client_id (clients_heap (heap_of demo_requested) ! 0) = ''app''"
proof -
  have "length (clients_heap (heap_of demo_requested)) < 2 ^ 64"
  proof -
    obtain p where p: "proxy_step demo_lib ''t.io'' (sy_proxy demo_registered) (Arrive demo_request)
        = Some p" "demo_requested = demo_registered\<lparr>sy_proxy := p\<rparr>"
      unfolding demo_requested_def
      by (cases "proxy_begin demo_lib ''t.io'' demo_request (state_of demo_registered)
          :: (string, string \<Rightarrow> string option, nat) flight \<times> server_state") simp
    then show ?thesis
      using same_sessions_step [OF p(1)] demo_registered_facts(3) unfolding p(2)
      by (simp add: same_sessions_def)
  qed
  from requests_stay_with_their_client [OF demo_requested_reachable this demo_http_laws, of AwaitOpen]
  show ?thesis by (simp add: demo_requested_flights)
qed

text \<open>Where a request for a client's host goes.\<close>

lemma host_routes:
  assumes "k \<noteq> []" "CHR '':'' \<notin> set (k @ domn)" "port = [] \<or> hd port = CHR '':''"
    "k \<notin> set RESERVED_SUBDOMAINS"
    "header_str L (rq_headers req) ''host'' = Some (k @ ''.'' @ domn @ port)"
  shows "dispatch domn (header_str L (rq_headers req) ''host'') = ToProxy"
    "extract_routing L req domn = Some (k, uri_path L (rq_uri req))"
proof -
  have hnp: "host_no_port (k @ ''.'' @ domn @ port) = k @ ''.'' @ domn"
  proof (cases port)
    case (Cons c p)
    then show ?thesis
      using assms(2,3) host_no_port_id(2) [of "k @ ''.'' @ domn" p] by simp
  qed (use assms(2) in simp)
  have "k \<noteq> ''dashboard''" using assms(4) by (auto simp: RESERVED_SUBDOMAINS_def)
  then have "k @ ''.'' @ domn \<noteq> ''dashboard.'' @ domn"
    using append_same_eq [of "k @ ''.''" domn "''dashboard.''"]
      append_same_eq [of k "''.''" "''dashboard''"] by simp
  moreover have "k @ ''.'' @ domn \<noteq> domn"
    using arg_cong [of "k @ ''.'' @ domn" domn length] by auto
  ultimately show "dispatch domn (header_str L (rq_headers req) ''host'') = ToProxy"
    unfolding dispatch_def assms(5) option.case Let_def hnp by simp
  show "extract_routing L req domn = Some (k, uri_path L (rq_uri req))"
    using hnp assms(1,5) by (simp add: extract_routing_Some)
qed

text \<open>C17: A registered client can be reached at the host it was told. A public request for
  \<open>k.domain\<close>, with or without a port, is not taken for the dashboard's or the apex, routes to
  \<open>k\<close> with its path unchanged, and, if the limiter lets it through, gets a stream to the very
  session that is registered under \<open>k\<close>.\<close>

theorem registered_host_reaches_client:
  assumes "reachable cfg L s" and "length (clients_heap (heap_of s)) < 2 ^ 64"
    and "registry_get (registry_of s) k = Some e"
    and "k \<noteq> []" and "CHR '':'' \<notin> set (k @ domain cfg)" and "port = [] \<or> hd port = CHR '':''"
    and "header_str L (rq_headers req) ''host'' = Some (k @ ''.'' @ domain cfg @ port)"
    and "fst (check (clock (heap_of s)) k (sv_limiter (state_of s)))"
  shows "dispatch (domain cfg) (header_str L (rq_headers req) ''host'') = ToProxy
    \<and> fst (proxy_begin L (domain cfg) req (state_of s)) = Waiting AwaitOpen
        \<lparr>fl_client = k, fl_path = uri_path L (rq_uri req), fl_entry = e, fl_request = req\<rparr>"
proof -
  have "k \<notin> set RESERVED_SUBDOMAINS"
    using session_invD(1) [OF session_inv_reachable [OF assms(1,2)]] assms(3)
    by (auto simp: registry_wf_def registry_get_def)
  note d = host_routes [OF assms(4,5,6) this assms(7)]
  obtain rl where "check (clock (heap_of s)) k (sv_limiter (state_of s)) = (True, rl)"
    using assms(8) by (cases "check (clock (heap_of s)) k (sv_limiter (state_of s))") auto
  then show ?thesis
    using d assms(3) by (simp add: proxy_begin_def count_request_def)
qed

theorem registered_host_reaches_client_witness:
  "dispatch ''t.io'' (Some ''app.t.io:80'') = ToProxy"
proof -
  have "sv_limiter (state_of demo_registered) = rate_limiter_new 100"
    by (simp_all add: demo_registered_def enter_session_def register_insert_def Let_def
        demo_accepted_def start_session_def register_alloc_def spawn_driver_def demo_start_eq
        server_state_new_def count_connection_def with_state_def set_conn_def
        split: option.split)
  then have "fst (check (clock (heap_of demo_registered)) ''app'' (sv_limiter (state_of demo_registered)))"
    by (simp add: check_def rate_limiter_new_def dm_get_def dm_empty_def as_secs_def)
  note R = registered_host_reaches_client [OF demo_registered_reachable _ demo_registered_facts(1)
      _ _ _ _ this, of "'':80''" demo_lib demo_request, THEN conjunct1]
  have "dispatch (domain demo_cfg) (header_str demo_lib (rq_headers demo_request) ''host'') = ToProxy"
    by (rule R) (simp_all add: demo_registered_facts demo_header)
  then show ?thesis by (simp add: demo_header)
qed

end
