(* ===== verification/Directory.thy ===== *)
theory Directory
  imports Server_Safety
begin

text \<open>
  The server as a directory. What the sessions of \<open>server.rs\<close> and the registry of
  \<open>registry.rs\<close> together promise is a small machine: sessions are admitted in order, an
  admitted session takes its id once, whoever held the id loses it, and an id is given up only by
  its holder. Every step of the server, with all its tasks, is a step of this machine or none.
\<close>

section \<open>The specification\<close>

record directory =
  dir_next :: nat
  dir_admitted :: "(nat \<times> string) set"
  dir_serving :: "string \<Rightarrow> nat option"

inductive dir_step :: "directory \<Rightarrow> directory \<Rightarrow> bool" where
  admit: "k \<notin> set RESERVED_SUBDOMAINS \<Longrightarrow> dir_step d
     (d\<lparr>dir_next := Suc (dir_next d), dir_admitted := insert (dir_next d, k) (dir_admitted d)\<rparr>)"
| join: "(n, k) \<in> dir_admitted d \<Longrightarrow> dir_step d
     (d\<lparr>dir_admitted := dir_admitted d - {(n, k)}, dir_serving := (dir_serving d)(k \<mapsto> n)\<rparr>)"
| leave: "dir_serving d k = Some n \<Longrightarrow> dir_step d (d\<lparr>dir_serving := (dir_serving d)(k := None)\<rparr>)"

inductive_cases dir_stepE: "dir_step d d'"

text \<open>A session that is neither waiting for its id nor serving is out, and stays out.\<close>

definition dir_gone :: "nat \<Rightarrow> directory \<Rightarrow> bool" where
  "dir_gone n d \<longleftrightarrow> n < dir_next d \<and> (\<forall>k. (n, k) \<notin> dir_admitted d) \<and> (\<forall>k. dir_serving d k \<noteq> Some n)"

lemma dir_gone_step: "dir_step d d' \<Longrightarrow> dir_gone n d \<Longrightarrow> dir_gone n d'"
  by (erule dir_stepE) (auto simp: dir_gone_def)

lemma dir_gone_run: "dir_step\<^sup>*\<^sup>* d d' \<Longrightarrow> dir_gone n d \<Longrightarrow> dir_gone n d'"
  by (induction rule: rtranclp_induct) (auto intro: dir_gone_step)

section \<open>The server's directory\<close>

fun pending_id :: "conn \<Rightarrow> (nat \<times> string) option" where
  "pending_id (Registering a e) = Some (e, ar_client_id a)"
| "pending_id _ = None"

definition directory_of :: "('u, 'h, 'r) sys \<Rightarrow> directory" where
  "directory_of s =
     \<lparr>dir_next = sessions_made s,
      dir_admitted = set (List.map_filter pending_id (sy_conns s)),
      dir_serving = registry_get (registry_of s)\<rparr>"

lemma pending_owned: "pending_id c = Some (e, k) \<longleftrightarrow> (\<exists>a. c = Registering a e \<and> k = ar_client_id a)"
  by (cases c) auto

lemma pending_none: "owned c = None \<Longrightarrow> pending_id c = None" "pending_id (Serving a e) = None"
  by (cases c) auto

lemma set_map_filter_nth:
  "x \<in> set (List.map_filter f xs) \<longleftrightarrow> (\<exists>i < length xs. f (xs ! i) = Some x)"
  by (induction xs) (auto simp: map_filter_simps less_Suc_eq_0_disj split: option.split)

lemma pending_update:
  assumes "i < length cs"
  shows "x \<in> set (List.map_filter pending_id (cs[i := c])) \<longleftrightarrow>
    pending_id c = Some x \<or> (\<exists>j < length cs. j \<noteq> i \<and> pending_id (cs ! j) = Some x)"
  unfolding set_map_filter_nth using assms by (auto simp: nth_list_update)

text \<open>Without the session at \<open>i\<close>, which was not waiting, nothing is missing.\<close>

lemma pending_others:
  assumes "pending_id (cs ! i) = None"
  shows "x \<in> set (List.map_filter pending_id cs) \<longleftrightarrow>
    (\<exists>j < length cs. j \<noteq> i \<and> pending_id (cs ! j) = Some x)"
  unfolding set_map_filter_nth using assms by fastforce

lemma pending_same:
  assumes "i < length cs" "pending_id (cs ! i) = None" "pending_id c = None"
  shows "set (List.map_filter pending_id (cs[i := c])) = set (List.map_filter pending_id cs)"
  using assms(3) by (simp add: set_eq_iff pending_update [OF assms(1)] pending_others [OF assms(2)])

lemma pending_new:
  assumes "i < length cs" "pending_id (cs ! i) = None" "pending_id c = Some x"
  shows "set (List.map_filter pending_id (cs[i := c])) = insert x (set (List.map_filter pending_id cs))"
  using assms(3)
  by (auto simp: set_eq_iff pending_update [OF assms(1)] pending_others [OF assms(2)])

text \<open>A session object has one owner, so the session that takes its id leaves the admitted ones.\<close>

lemma pending_taken:
  assumes inv: "session_inv cfg s" and i: "i < length (sy_conns s)" "sy_conns s ! i = Registering a e"
    and c: "pending_id c = None"
  shows "set (List.map_filter pending_id ((sy_conns s)[i := c]))
    = set (List.map_filter pending_id (sy_conns s)) - {(e, ar_client_id a)}"
proof -
  have only: "j = i" if "j < length (sy_conns s)" "pending_id (sy_conns s ! j) = Some (e, k)" for j k
    using session_invD(6) [OF inv that(1) i(1)] that(2) i(2) by (auto simp: pending_owned)
  have "(\<exists>j < length (sy_conns s). j \<noteq> i \<and> pending_id (sy_conns s ! j) = Some x)
      \<longleftrightarrow> (\<exists>j < length (sy_conns s). pending_id (sy_conns s ! j) = Some x) \<and> x \<noteq> (e, ar_client_id a)"
    (is "?L x \<longleftrightarrow> ?R x") for x
  proof
    assume "?L x"
    then show "?R x" using only by blast
  next
    assume "?R x"
    then obtain j where "j < length (sy_conns s)" "pending_id (sy_conns s ! j) = Some x" by blast
    moreover have "j \<noteq> i" using calculation(2) \<open>?R x\<close> i(2) by auto
    ultimately show "?L x" by blast
  qed
  then show ?thesis
    unfolding set_eq_iff pending_update [OF i(1)] using c
    by (simp add: set_map_filter_nth)
qed

lemma directory_eq:
  "sessions_made s' = sessions_made s \<Longrightarrow> registry_get (registry_of s') = registry_get (registry_of s)
    \<Longrightarrow> set (List.map_filter pending_id (sy_conns s')) = set (List.map_filter pending_id (sy_conns s))
    \<Longrightarrow> directory_of s' = directory_of s"
  by (simp add: directory_of_def)

section \<open>Every step of the server is a step of the directory, or none\<close>

lemma directory_frame:
  "core_grows s s' \<Longrightarrow> sessions_made s' = sessions_made s \<Longrightarrow> sy_conns s' = sy_conns s
    \<Longrightarrow> directory_of s' = directory_of s"
  by (intro directory_eq) (simp_all add: core_grows_def)

lemma directory_set_conn:
  assumes "i < length (sy_conns s)" "pending_id (sy_conns s ! i) = None" "pending_id c = None"
  shows "directory_of (set_conn i c s) = directory_of s"
proof (rule directory_eq)
  show "set (List.map_filter pending_id (sy_conns (set_conn i c s)))
      = set (List.map_filter pending_id (sy_conns s))"
    unfolding sys_simps by (rule pending_same [OF assms])
qed simp_all

lemma directory_accepted:
  assumes inv: "session_inv cfg s" and i: "i < length (sy_conns s)" "sy_conns s ! i = Accepting a"
    and s': "s' = (start_session i a s)\<lparr>sy_sent := sy_sent s @ [(a, accept_reply cfg a)]\<rparr>"
  shows "directory_of s' = directory_of s \<or> dir_step (directory_of s) (directory_of s')"
  using s'
proof (cases rule: start_session_cases)
  case reserved
  then have "directory_of s' = directory_of s"
    using i by (intro directory_eq) (simp_all add: heap_of_spawn_driver pending_same)
  then show ?thesis ..
next
  case (fresh r hp)
  have r: "registry_get r = registry_get (registry_of s)"
    "length (clients_heap hp) = Suc (sessions_made s)"
    using fresh(1,2) by (auto simp: register_alloc_def Let_def registry_get_def fun_eq_iff
        heap_of_spawn_driver)
  have "pending_id (sy_conns s ! i) = None" using i(2) by simp
  from pending_new [OF i(1) this, of "Registering a (sessions_made s)"]
  have "directory_of s' = (directory_of s)\<lparr>dir_next := Suc (dir_next (directory_of s)),
      dir_admitted := insert (dir_next (directory_of s), ar_client_id a) (dir_admitted (directory_of s))\<rparr>"
    using fresh(3) r by (simp add: directory_of_def)
  then show ?thesis using dir_step.admit [OF fresh(1)] by metis
qed

lemma directory_entered:
  assumes inv: "session_inv cfg s" and i: "i < length (sy_conns s)" "sy_conns s ! i = Registering a e"
  shows "dir_step (directory_of s) (directory_of (enter_session cfg i a e s))"
proof -
  have ok: "owner_ok cfg s a e" using session_invD(5) [OF inv i(1), of a e] i(2) by simp
  have "dm_wf (clients (registry_of s))" using session_invD(1) [OF inv] by (simp add: registry_wf_def)
  note E = enter_session_simps [where cfg = cfg and i = i, OF _ _ this refl, of e a]
  have "(e, ar_client_id a) \<in> dir_admitted (directory_of s)"
    using i by (auto simp: directory_of_def set_map_filter_nth intro!: exI [of _ i])
  moreover have "directory_of (enter_session cfg i a e s) = (directory_of s)\<lparr>dir_admitted :=
      dir_admitted (directory_of s) - {(e, ar_client_id a)},
      dir_serving := (dir_serving (directory_of s))(ar_client_id a \<mapsto> e)\<rparr>"
    using E ok pending_taken [OF inv i, of "Serving a e"]
    by (simp add: directory_of_def owner_ok_def split: option.split)
  ultimately show ?thesis using dir_step.join by metis
qed

lemma directory_left:
  assumes inv: "session_inv cfg s" and i: "i < length (sy_conns s)" "sy_conns s ! i = Serving a e"
    and few: "sessions_made s < 2 ^ 64"
  shows "directory_of (leave_session i a e s) = directory_of s
    \<or> dir_step (directory_of s) (directory_of (leave_session i a e s))"
proof -
  have ok: "owner_ok cfg s a e" using session_invD(5) [OF inv i(1), of a e] i(2) by simp
  note L = leave_session_simps [OF session_invD(1) [OF inv] _ few, of e i a]
  obtain b where "sy_conns (leave_session i a e s) = (sy_conns s)[i := Finished (Disconnected b)]"
    using L(3) ok by (auto simp: owner_ok_def)
  then have conns: "set (List.map_filter pending_id (sy_conns (leave_session i a e s)))
      = set (List.map_filter pending_id (sy_conns s))"
    using i by (simp add: pending_same)
  have reg: "registry_get (registry_of (leave_session i a e s)) =
      (if registry_get (registry_of s) (ar_client_id a) = Some e
       then (registry_get (registry_of s))(ar_client_id a := None) else registry_get (registry_of s))"
    using L(2) ok by (auto simp: owner_ok_def fun_eq_iff)
  show ?thesis
  proof (cases "registry_get (registry_of s) (ar_client_id a) = Some e")
    case True
    then have "directory_of (leave_session i a e s) = (directory_of s)\<lparr>dir_serving :=
        (dir_serving (directory_of s))(ar_client_id a := None)\<rparr>"
      using conns reg L(1) ok by (simp add: directory_of_def owner_ok_def)
    moreover have "dir_serving (directory_of s) (ar_client_id a) = Some e"
      using True by (simp add: directory_of_def)
    ultimately show ?thesis using dir_step.leave by metis
  next
    case False
    then show ?thesis
      using conns reg L(1) ok by (simp add: directory_of_def owner_ok_def)
  qed
qed

lemma directory_step:
  assumes step: "server_step cfg L s s'" and inv: "session_inv cfg s" "session_inv cfg s'"
    and few: "sessions_made s' < 2 ^ 64"
  shows "directory_of s' = directory_of s \<or> dir_step (directory_of s) (directory_of s')"
  using step
proof cases
  case accept
  then have "directory_of s' = directory_of s"
    by (intro directory_eq) (simp_all add: count_connection_def map_filter_def)
  then show ?thesis ..
next
  case (session i ev)
  have few': "sessions_made s < 2 ^ 64" using heap_grows_step [OF step] few by simp
  from session(2) show ?thesis
  proof (cases rule: conn_stepE)
    case (read m)
    have "pending_id (sy_conns s ! i) = None" using read(1) by simp
    from directory_set_conn [OF session(1) this pending_none(1) [OF on_auth_read_cases(1)]]
    show ?thesis using read(2) by blast
  next
    case failed
    from directory_set_conn [OF session(1) pending_none(1) [OF failed(1)] pending_id.simps(6)]
    show ?thesis using failed(2) by blast
  next
    case (rejected a)
    then show ?thesis
      using session(1) pending_same [of i "sy_conns s" "Finished Rejected"]
      by (simp add: directory_of_def count_failed_auth_def)
  qed (use session(1) few' directory_set_conn pending_none directory_accepted [OF inv(1)]
      directory_entered [OF inv(1)] directory_left [OF inv(1)] in auto)
next
  case (driver h ev)
  then have "sessions_made s' = sessions_made s" "sy_conns s' = sy_conns s"
    by (auto simp: driver_turn_def Let_def split: if_splits prod.splits option.splits)
  then show ?thesis using directory_frame [OF core_grows_driver [OF inv(1) driver]] by blast
next
  case (request pev p')
  then have "sessions_made s' = sessions_made s"
    using same_sessions_step [OF request(2)] by (simp add: same_sessions_def)
  then show ?thesis
    using directory_frame [OF core_grows_request [OF inv(1) request(2)]] request(1) by simp
next
  case (tick now)
  then show ?thesis by (simp add: directory_of_def)
qed

interpretation directory: bounded_simulation "fresh_server cfg" "server_step cfg L"
  "reachable cfg L" sessions_made "2 ^ 64" "session_inv cfg" dir_step directory_of for cfg L
proof unfold_locales
  fix s s' :: "('a, 'b, 'c) sys"
  assume "server_step cfg L s s'" "session_inv cfg s" "session_inv cfg s'" "sessions_made s' < 2 ^ 64"
  from directory_step [OF this] show "dir_step\<^sup>*\<^sup>* (directory_of s) (directory_of s')" by auto
qed


section \<open>Properties\<close>

definition empty_directory :: directory where
  "empty_directory = \<lparr>dir_next = 0, dir_admitted = {}, dir_serving = Map.empty\<rparr>"

lemma directory_of_fresh: "fresh_server cfg s \<Longrightarrow> directory_of s = empty_directory"
  by (auto simp: fresh_server_def server_run_def server_state_new_def directory_of_def
      empty_directory_def registry_get_new fun_eq_iff map_filter_def split: if_splits)



text \<open>C11: A session that has lost its id, to a takeover or because it ended, never has one again:
  it is not registered in any later state, so no visitor is ever sent to a session that is over.\<close>

theorem superseded_never_returns:
  assumes "reachable cfg L s" and "e < sessions_made s" and "\<forall>a. Registering a e \<notin> set (sy_conns s)"
    and "\<forall>k. registry_get (registry_of s) k \<noteq> Some e"
    and "server_steps cfg L s s'" and "sessions_made s' < 2 ^ 64"
  shows "registry_get (registry_of s') k \<noteq> Some e"
proof -
  have "sessions_made s < 2 ^ 64" using sessions.used_grows_run [OF assms(5)] assms(6) by simp
  note run = directory.simulates_run [OF assms(5) session_inv_reachable [OF assms(1) this] assms(6)]
  have "(e, j) \<notin> dir_admitted (directory_of s)" for j
    using assms(3) by (auto simp: directory_of_def set_map_filter_nth pending_owned)
      (metis nth_mem)
  then have "dir_gone e (directory_of s)"
    using assms(2,4) by (simp add: dir_gone_def directory_of_def)
  from dir_gone_run [OF run this] show ?thesis by (simp add: dir_gone_def directory_of_def)
qed

lemma demo_taken_over:
  "\<exists>s :: (string, string \<Rightarrow> string option, nat) sys. reachable demo_cfg demo_lib s \<and> sessions_made s = 2 \<and> (\<forall>a. Registering a 0 \<notin> set (sy_conns s))
     \<and> registry_get (registry_of s) ''app'' = Some 1 \<and> (\<forall>k. registry_get (registry_of s) k \<noteq> Some 0)"
proof -
  have conns: "sy_conns demo_registered = [Serving demo_req 0]"
    by (simp add: demo_registered_def enter_session_def demo_accepted_conns split: prod.split)
  obtain s where s: "server_steps demo_cfg demo_lib demo_registered s"
    "registry_get (registry_of s) ''app'' = Some 1" "sessions_made s = 2"
    "0 < length (sy_conns s)" "sy_conns s ! 0 = Serving demo_req 0"
  proof -
    have few: "Suc (sessions_made demo_registered) < 2 ^ 64" by (simp add: demo_registered_facts)
    show thesis
      using registration_steps [where L = demo_lib and a = demo_req,
          OF demo_registered_reachable few demo_token] that
      by (auto simp: conns demo_registered_facts RESERVED_SUBDOMAINS_def)
  qed
  have r: "reachable demo_cfg demo_lib s" by (rule reachable_steps [OF s(1) demo_registered_reachable])
  then have inv: "session_inv demo_cfg s" by (rule session_inv_reachable) (simp add: s(3))
  have "owner_ok demo_cfg s demo_req 0" using session_invD(5) [OF inv s(4)] s(5) by simp
  then have "ce_client_id (clients_heap (heap_of s) ! 0) = ''app''" by (simp add: owner_ok_def)
  moreover have "ce_client_id (clients_heap (heap_of s) ! 0) = k"
    if "registry_get (registry_of s) k = Some 0" for k
    using session_invD(1) [OF inv] that by (auto simp: registry_wf_def registry_get_def)
  ultimately have "registry_get (registry_of s) k \<noteq> Some 0" for k using s(2) by auto
  moreover have "Registering a 0 \<notin> set (sy_conns s)" for a
  proof
    assume "Registering a 0 \<in> set (sy_conns s)"
    then obtain j where "j < length (sy_conns s)" "sy_conns s ! j = Registering a 0"
      by (auto simp: in_set_conv_nth)
    then show False using session_invD(6) [OF inv _ s(4), of j a 0 demo_req] s(5) by auto
  qed
  ultimately show ?thesis using r s by blast
qed

theorem superseded_never_returns_witness:
  "\<exists>s :: (string, string \<Rightarrow> string option, nat) sys. reachable demo_cfg demo_lib s \<and> registry_get (registry_of s) ''app'' \<noteq> Some 0"
proof -
  obtain s :: "(string, string \<Rightarrow> string option, nat) sys" where s: "reachable demo_cfg demo_lib s"
    "sessions_made s = 2"
    "\<forall>a. Registering a 0 \<notin> set (sy_conns s)" "\<forall>k. registry_get (registry_of s) k \<noteq> Some 0"
    using demo_taken_over by blast
  have "registry_get (registry_of s) ''app'' \<noteq> Some 0"
    by (rule superseded_never_returns [OF s(1) _ s(3,4) rtranclp.rtrancl_refl]) (simp_all add: s(2))
  then show ?thesis using s(1) by blast
qed

end
