(* ===== verification/References.thy ===== *)
theory References
  imports Server_Safety
begin

text \<open>
  Every reference of the server resolves. In Rust an \<open>Arc\<close> cannot dangle; here it is an index
  into an arena, and reading past an arena's end would mean nothing. This theory shows that no
  reachable state holds such an index, so that every lookup the model makes in a run is one the
  program makes: registry entries, sessions and requests point to client entries, client entries to
  the task and the two cells of their own driver.
\<close>

section \<open>The cells of a session\<close>

text \<open>An entry looks at the cells of the driver its handle stands for, and the two agree on whether
  the client answers heartbeats.\<close>

definition entry_cells :: "('u, 'h, 'r) sys \<Rightarrow> client_entry \<Rightarrow> bool" where
  "entry_cells s c \<longleftrightarrow>
     ce_handle c < length (sy_drivers s)
     \<and> ce_last_activity c = ce_handle c \<and> ce_missed_heartbeats c = ce_handle c
     \<and> ce_supports_heartbeat c = fst (sy_drivers s ! ce_handle c)"

definition cells_inv :: "('u, 'h, 'r) sys \<Rightarrow> bool" where
  "cells_inv s \<longleftrightarrow> (\<forall>e < length (clients_heap (heap_of s)). entry_cells s (clients_heap (heap_of s) ! e))"

text \<open>Entries are kept or new, drivers keep their kind.\<close>

definition cells_kept :: "('u, 'h, 'r) sys \<Rightarrow> ('u, 'h, 'r) sys \<Rightarrow> bool" where
  "cells_kept s s' \<longleftrightarrow>
     (\<forall>h < length (sy_drivers s). h < length (sy_drivers s')
        \<and> fst (sy_drivers s' ! h) = fst (sy_drivers s ! h))
     \<and> (\<forall>e < length (clients_heap (heap_of s')).
          if e < length (clients_heap (heap_of s))
          then (let c = clients_heap (heap_of s) ! e; c' = clients_heap (heap_of s') ! e
                in ce_handle c' = ce_handle c \<and> ce_last_activity c' = ce_last_activity c
                   \<and> ce_missed_heartbeats c' = ce_missed_heartbeats c
                   \<and> ce_supports_heartbeat c' = ce_supports_heartbeat c)
          else entry_cells s' (clients_heap (heap_of s') ! e))"

lemma cells_inv_kept: "cells_inv s \<Longrightarrow> cells_kept s s' \<Longrightarrow> cells_inv s'"
  unfolding cells_inv_def cells_kept_def entry_cells_def Let_def by (metis (no_types, lifting))

lemma cells_kept_same:
  "clients_heap (heap_of s') = clients_heap (heap_of s) \<Longrightarrow> sy_drivers s' = sy_drivers s
    \<Longrightarrow> cells_kept s s'"
  by (simp add: cells_kept_def)

lemma cells_kept_conn:
  assumes inv: "session_inv cfg s" and st: "conn_step cfg i s c ev = Some s'"
  shows "cells_kept s s'"
  using st
proof (cases rule: conn_stepE)
  case (accepted a)
  then show ?thesis
    using session_invD(2-4) [OF inv]
    by (auto simp: cells_kept_def entry_cells_def start_session_def register_alloc_def Let_def
        spawn_driver_def nth_append less_Suc_eq handle_abort_def)
next
  case (entered a e)
  then show ?thesis
    by (auto simp: enter_session_def register_insert_def Let_def handle_abort_def
        split: option.split intro!: cells_kept_same)
next
  case (left a e)
  then show ?thesis by (simp add: leave_session_def unregister_def Let_def cells_kept_same)
qed (auto simp: count_failed_auth_def intro!: cells_kept_same)

lemma cells_kept_driver: "driver_turn h ev s = Some s' \<Longrightarrow> cells_kept s s'"
  by (auto simp: driver_turn_def cells_kept_def Let_def nth_list_update
      split: if_splits option.splits prod.splits)

lemma cells_inv_reachable:
  fixes s :: "('u, 'h, 'r) sys" and L :: "('u, 'h) http_lib"
  assumes "reachable cfg L s" "sessions_made s < 2 ^ 64"
  shows "cells_inv s"
proof (rule sessions.also_reached [OF assms])
  fix s :: "('u, 'h, 'r) sys"
  assume "fresh_server cfg s"
  then show "cells_inv s"
    by (auto simp: fresh_server_def server_run_def cells_inv_def server_state_new_def
        split: if_splits)
next
  fix s s' :: "('u, 'h, 'r) sys"
  assume step: "server_step cfg L s s'" and inv: "session_inv cfg s" and IH: "cells_inv s"
  from step have "cells_kept s s'"
  proof cases
    case (session i ev)
    then show ?thesis using cells_kept_conn [OF inv] by blast
  next
    case (driver h ev)
    then show ?thesis by (rule cells_kept_driver)
  next
    case (request pev p')
    then show ?thesis
      using same_sessions_step [OF request(2)] by (simp add: same_sessions_def cells_kept_def Let_def)
  qed (simp_all add: cells_kept_same count_connection_def)
  then show "cells_inv s'" using cells_inv_kept IH by blast
qed

section \<open>Property\<close>

text \<open>The references a state of the server holds.\<close>

definition references_resolve :: "('u, 'h, 'r) sys \<Rightarrow> bool" where
  "references_resolve s \<longleftrightarrow>
     (let hp = heap_of s in
      (\<forall>c \<in> set (clients_heap hp).
          ce_handle c < length (tasks hp) \<and> ce_handle c < length (sy_drivers s)
          \<and> ce_last_activity c < length (activity hp)
          \<and> ce_missed_heartbeats c < length (missed hp))
      \<and> (\<forall>k e. registry_get (registry_of s) k = Some e \<longrightarrow> e < length (clients_heap hp))
      \<and> (\<forall>c \<in> set (sy_conns s). \<forall>a e. owned c = Some (a, e) \<longrightarrow> e < length (clients_heap hp))
      \<and> (\<forall>f \<in> set (px_flights (sy_proxy s)). \<forall>e. holds_gauge f = Some e
            \<longrightarrow> e < length (clients_heap hp)))"

text \<open>C12: The server's state is well-formed in every reachable state: each client entry points to
  an existing task and existing cells, and they are all of the one driver that was started for it,
  with the heartbeat setting of its client; the registry, the sessions and the requests in flight
  point to existing client entries. So no lookup of the model ever reads outside its arena, and the
  missed heartbeats by which a client is called dead are those its own driver counts.\<close>

theorem references_always_resolve:
  assumes "reachable cfg L s" and "length (clients_heap (heap_of s)) < 2 ^ 64" and "http_laws L"
  shows "references_resolve s
    \<and> (\<forall>c \<in> set (clients_heap (heap_of s)).
         ce_last_activity c = ce_handle c \<and> ce_missed_heartbeats c = ce_handle c
         \<and> ce_supports_heartbeat c = fst (sy_drivers s ! ce_handle c))"
proof -
  note inv = session_inv_reachable [OF assms(1,2)]
  have cells: "entry_cells s c" if "c \<in> set (clients_heap (heap_of s))" for c
    using cells_inv_reachable [OF assms(1,2)] that by (auto simp: cells_inv_def in_set_conv_nth)
  moreover have "e < length (clients_heap (heap_of s))" if "c \<in> set (sy_conns s)" "owned c = Some (a, e)"
    for c a e
    using that session_invD(5) [OF inv] by (auto simp: in_set_conv_nth owner_ok_def)
  moreover have "e < length (clients_heap (heap_of s))" if "registry_get (registry_of s) k = Some e" for k e
    using that session_invD(1) [OF inv] by (auto simp: registry_wf_def registry_get_def)
  moreover have "e < length (clients_heap (heap_of s))"
    if "f \<in> set (px_flights (sy_proxy s))" "holds_gauge f = Some e" for f e
    using that requests_inv_reachable [OF assms] by (auto simp: requests_inv_def gauge_inv_def)
  ultimately show ?thesis
    using session_invD(2-4) [OF inv] by (auto simp: references_resolve_def entry_cells_def Let_def)
qed

theorem references_always_resolve_witness:
  "references_resolve demo_registered
    \<and> ce_missed_heartbeats (clients_heap (heap_of demo_registered) ! 0)
        = ce_handle (clients_heap (heap_of demo_registered) ! 0)"
  using references_always_resolve [OF demo_registered_reachable _ demo_http_laws]
  by (simp add: demo_registered_facts)

end
