(* ===== verification/Restart.thy ===== *)
theory Restart
  imports Server_Safety
begin

text \<open>
  The end of \<open>Server::run\<close> in \<open>server.rs\<close> and what outlives it: the route files. The server
  never deletes the route of a client, neither when the client goes nor when it stops itself, so that
  Traefik has no gap to fill after a restart.
\<close>

section \<open>Shutdown\<close>

text \<open>\<open>Server::run\<close> waits for ctrl-c or the end of the control task, stops the public task and
  returns; what it logs last is the number of clients and the counters.\<close>

record final_stats =
  fi_connected :: nat
  fi_snapshot :: metrics_snapshot

definition server_shutdown :: "('u, 'h, 'r) sys \<Rightarrow> final_stats \<times> fs" where
  "server_shutdown s =
     (\<lparr>fi_connected = registry_count (registry_of s),
       fi_snapshot = snapshot (clock (heap_of s)) (sv_metrics (state_of s))\<rparr>, sy_fs s)"

section \<open>Route files in a run\<close>

text \<open>Only a session that takes its id writes to the file system, and only its own route file.\<close>

lemma fs_conn_step:
  assumes "conn_step cfg i s c ev = Some s'"
  obtains "sy_fs s' = sy_fs s"
    | a e where "c = Registering a e" "sy_fs s' = write_client_route cfg (ar_client_id a) (sy_fs s)"
  using assms
proof (cases rule: conn_stepE)
  case (accepted a)
  then show thesis
    using that(1) by (auto simp: start_session_def Let_def set_conn_def with_state_def spawn_driver_def
        register_alloc_def)
next
  case (entered a e)
  then show thesis
    using that(2) [of a e] by (simp add: enter_session_def set_conn_def with_state_def split: prod.split)
next
  case (left a e)
  then show thesis
    using that(1) by (auto simp: leave_session_def set_conn_def with_state_def split: prod.splits)
qed (use that(1) in \<open>auto simp: set_conn_def with_state_def\<close>)

lemma fs_server_step:
  assumes "server_step cfg L s s'" and inv: "session_inv cfg s"
  obtains "sy_fs s' = sy_fs s"
    | a where "(a, accept_reply cfg a) \<in> set (sy_sent s)"
        "sy_fs s' = write_client_route cfg (ar_client_id a) (sy_fs s)"
  using assms(1)
proof cases
  case (session i ev)
  from session(2) show thesis
  proof (cases rule: fs_conn_step)
    case (2 a e)
    then have "owner_ok cfg s a e" using session_invD(5) [OF inv session(1), of a e] by simp
    then show thesis using that(2) [of a] 2(2) by (simp add: owner_ok_def)
  qed (rule that(1))
next
  case (driver h ev)
  then show thesis
    using that(1) by (auto simp: driver_turn_def Let_def with_state_def
        split: if_splits prod.splits option.splits)
qed (use that(1) in \<open>auto simp: with_state_def\<close>)

lemma sent_grows:
  assumes "server_step cfg L s s'"
  shows "set (sy_sent s) \<subseteq> set (sy_sent s')"
  using assms
proof cases
  case (session i ev)
  from session(2) show ?thesis
    by (cases rule: conn_stepE)
       (auto simp: enter_session_def leave_session_def split: prod.splits)
next
  case (driver h ev)
  then show ?thesis
    by (auto simp: driver_turn_def Let_def split: if_splits prod.splits option.splits)
qed auto

section \<open>Restart\<close>

text \<open>The route file of a client holds the client's route.\<close>

definition route_in_place :: "traefik_manager \<Rightarrow> string \<Rightarrow> fs \<Rightarrow> bool" where
  "route_in_place m k f \<longleftrightarrow> fs_content f (client_file m (sanitize_id k)) = Some (client_route m k)"

text \<open>No other client that was let in has an id with the same sanitized form.\<close>

definition file_name_unshared :: "server_config \<Rightarrow> string \<Rightarrow> ('u, 'h, 'r) sys \<Rightarrow> bool" where
  "file_name_unshared cfg k s \<longleftrightarrow> (\<forall>a. (a, accept_reply cfg a) \<in> set (sy_sent s)
     \<longrightarrow> sanitize_id (ar_client_id a) = sanitize_id k \<longrightarrow> ar_client_id a = k)"

lemma route_kept_by_write:
  assumes "fs_wf f" "route_in_place m k f" "route_manager cfg = Some m"
    "sanitize_id b = sanitize_id k \<longrightarrow> b = k"
  shows "fs_wf (write_client_route cfg b f) \<and> route_in_place m k (write_client_route cfg b f)"
proof (cases "b = k")
  case True
  then show ?thesis
    using add_client_effect [where m = m and b = k, OF assms(1)] assms
    by (auto simp: write_client_route_def route_in_place_def)
next
  case False
  then have "client_file m (sanitize_id k) \<noteq> client_file m (sanitize_id b)"
    using assms(4) client_file_inject [of m k b] by auto
  then show ?thesis
    using add_client_effect [where m = m and b = b, OF assms(1)] assms
    by (simp add: write_client_route_def route_in_place_def)
qed

lemma route_kept_in_run:
  assumes "server_steps cfg L s s'" "session_inv cfg s" "sessions_made s' < 2 ^ 64"
    and m: "route_manager cfg = Some m"
    and "fs_wf (sy_fs s)" "route_in_place m k (sy_fs s)" "file_name_unshared cfg k s'"
  shows "fs_wf (sy_fs s') \<and> route_in_place m k (sy_fs s')"
  using assms(1,3,7)
proof (induction rule: rtranclp_induct)
  case base
  then show ?case using assms(5,6) by simp
next
  case (step y z)
  have few: "sessions_made y < 2 ^ 64" using heap_grows_step [OF step.hyps(2)] step.prems(1) by simp
  have "file_name_unshared cfg k y"
    using sent_grows [OF step.hyps(2)] step.prems(2) by (auto simp: file_name_unshared_def)
  then have IH: "fs_wf (sy_fs y)" "route_in_place m k (sy_fs y)" using step.IH [OF few] by auto
  note inv = sessions.inv_run [OF step.hyps(1) assms(2) few]
  from step.hyps(2) inv show ?case
  proof (cases rule: fs_server_step)
    case (2 a)
    then have "sanitize_id (ar_client_id a) = sanitize_id k \<longrightarrow> ar_client_id a = k"
      using sent_grows [OF step.hyps(2)] step.prems(2) unfolding file_name_unshared_def by blast
    from route_kept_by_write [OF IH m this] show ?thesis unfolding 2(2) .
  qed (use IH in simp)
qed

lemma static_routes_keep:
  assumes "fs_wf f" "route_in_place m k f"
  shows "route_in_place m k (snd (write_static_routes m f))" "fs_wf (snd (write_static_routes m f))"
proof -
  have dir: "fs_wf (snd (ensure_dir m f))" "fs_content (snd (ensure_dir m f)) = fs_content f"
    using assms(1) by (auto simp: ensure_dir_def fs_create_dir_all_def fs_wf_def)
  have "fs_content (snd (fs_write (base_file m) c g)) (client_file m (sanitize_id k))
      = fs_content g (client_file m (sanitize_id k))" if "fs_wf g" for c g
    using fsys.write_other [OF that client_file_not_base] .
  then show "route_in_place m k (snd (write_static_routes m f))"
    using dir assms(2) by (auto simp: route_in_place_def write_static_routes_def split: prod.split sum.split)
  show "fs_wf (snd (write_static_routes m f))"
    using dir(1) fsys.wf_write [of "snd (ensure_dir m f)" "base_file m" "static_routes m"]
    by (auto simp: write_static_routes_def split: prod.split sum.split)
qed



abbreviation demo_traefik_cfg :: server_config where
  "demo_traefik_cfg \<equiv> demo_cfg\<lparr>traefik := traefik_default\<lparr>tc_enabled := True\<rparr>\<rparr>"

lemma demo_route_manager: "route_manager demo_traefik_cfg = Some demo_manager"
  by (simp add: route_manager_def)


end
