(* ===== verification/Dashboard.thy ===== *)
theory Dashboard
  imports Registry Metrics
begin

text \<open>
  The dashboard, \<open>zo-tunnel-server/src/dashboard.rs\<close>: login sessions and their cookies, the
  guarded API, the install script and the downloads.

  Of a request only the headers the handlers read are modelled, as text (\<open>None\<close>: missing or
  not text). A new session id (\<open>Uuid::new_v4\<close>), the time, and the constant-time comparison are
  arguments. The status and the fields of the JSON bodies are kept, not their rendering.
\<close>

section \<open>Session store\<close>

record session_store =
  ss_sessions :: "(string, instant) dmap"
  ss_ttl_secs :: u64

definition session_store_new :: "u64 \<Rightarrow> session_store" where
  "session_store_new ttl = \<lparr>ss_sessions = dm_empty, ss_ttl_secs = ttl\<rparr>"

definition session_create :: "instant \<Rightarrow> string \<Rightarrow> session_store \<Rightarrow> session_store" where
  "session_create now new_id st = st\<lparr>ss_sessions := dm_put new_id now (ss_sessions st)\<rparr>"

definition session_validate :: "instant \<Rightarrow> string \<Rightarrow> session_store \<Rightarrow> bool \<times> session_store" where
  "session_validate now session_id st =
     (case dm_get (ss_sessions st) session_id of
        None \<Rightarrow> (False, st)
      | Some created_at \<Rightarrow>
          if as_secs (elapsed now created_at) < unat (ss_ttl_secs st) then (True, st)
          else (False, st\<lparr>ss_sessions := dm_remove session_id (ss_sessions st)\<rparr>))"

definition session_invalidate :: "string \<Rightarrow> session_store \<Rightarrow> session_store" where
  "session_invalidate session_id st = st\<lparr>ss_sessions := dm_remove session_id (ss_sessions st)\<rparr>"

section \<open>Cookies\<close>

definition COOKIE_NAME :: string where
  "COOKIE_NAME = ''zo-session''"

record req_headers =
  rh_cookie :: "string option"
  rh_forwarded_proto :: "string option"

text \<open>The loop over the parts of the header. The \<open>?\<close> on \<open>strip_prefix('=')\<close> leaves the
  function, not the iteration.\<close>

fun find_session_id :: "string list \<Rightarrow> string option" where
  "find_session_id [] = None"
| "find_session_id (p # parts) =
     (case strip_prefix COOKIE_NAME (trim p) of
        None \<Rightarrow> find_session_id parts
      | Some v \<Rightarrow>
          (case strip_prefix ''='' v of
             None \<Rightarrow> None
           | Some value \<Rightarrow> if value \<noteq> [] then Some value else find_session_id parts))"

definition extract_session_id :: "req_headers \<Rightarrow> string option" where
  "extract_session_id hs =
     (case rh_cookie hs of None \<Rightarrow> None | Some c \<Rightarrow> find_session_id (split_on CHR '';'' c))"

definition build_session_cookie :: "string \<Rightarrow> u64 \<Rightarrow> bool \<Rightarrow> string" where
  "build_session_cookie session_id max_age_secs tls_enabled =
     COOKIE_NAME @ ''='' @ session_id @ ''; Path=/; HttpOnly; SameSite=Strict; Max-Age=''
       @ show_nat (unat max_age_secs) @ (if tls_enabled then ''; Secure'' else [])"

definition build_clear_cookie :: string where
  "build_clear_cookie = COOKIE_NAME @ ''=; Path=/; HttpOnly; SameSite=Strict; Max-Age=0''"

section \<open>Authentication\<close>

record dashboard_state =
  ds_dashboard_token :: string
  ds_client_token :: string
  ds_auth_enabled :: bool
  ds_tls_enabled :: bool
  ds_domain :: string
  ds_control_port :: u16
  ds_clients_dir :: string

text \<open>The part of \<open>Server::run\<close> that makes the dashboard's state from the configuration.\<close>

definition dashboard_state_of :: "server_config \<Rightarrow> dashboard_state" where
  "dashboard_state_of cfg =
     \<lparr>ds_dashboard_token = da_token (dashboard_auth cfg),
      ds_client_token = (case auth_tokens cfg of [] \<Rightarrow> [] | t # _ \<Rightarrow> t),
      ds_auth_enabled = dashboard_auth_enabled cfg, ds_tls_enabled = tc_enabled (traefik cfg),
      ds_domain = domain cfg, ds_control_port = control_port cfg, ds_clients_dir = clients_dir cfg\<rparr>"

definition is_authenticated :: "dashboard_state \<Rightarrow> instant \<Rightarrow> req_headers \<Rightarrow> session_store
    \<Rightarrow> bool \<times> session_store" where
  "is_authenticated ds now hs st =
     (if \<not> ds_auth_enabled ds then (True, st)
      else case extract_session_id hs of
             Some session_id \<Rightarrow> session_validate now session_id st
           | None \<Rightarrow> (False, st))"

definition is_tls_enabled :: "dashboard_state \<Rightarrow> req_headers \<Rightarrow> bool" where
  "is_tls_enabled ds hs \<longleftrightarrow>
     ds_tls_enabled ds
     \<or> (case rh_forwarded_proto hs of
          Some proto \<Rightarrow> eq_ignore_ascii_case (trim proto) ''https''
        | None \<Rightarrow> False)"

record login_reply =
  lr_status :: nat
  lr_set_cookie :: "string option"
  lr_success :: bool
  lr_message :: string

definition api_login :: "(bytes \<Rightarrow> bytes \<Rightarrow> bool) \<Rightarrow> dashboard_state \<Rightarrow> instant \<Rightarrow> string \<Rightarrow> req_headers
    \<Rightarrow> string \<Rightarrow> session_store \<Rightarrow> login_reply \<times> session_store" where
  "api_login ct_eq ds now new_id hs token st =
     (if \<not> ds_auth_enabled ds then
        (\<lparr>lr_status = 200, lr_set_cookie = None, lr_success = True,
          lr_message = ''Authentication not required''\<rparr>, st)
      else
        (case is_authenticated ds now hs st of
           (True, st1) \<Rightarrow>
             (\<lparr>lr_status = 200, lr_set_cookie = None, lr_success = True,
               lr_message = ''Already authenticated''\<rparr>, st1)
         | (False, st1) \<Rightarrow>
             let check_cfg = server_config_default\<lparr>dashboard_auth :=
                   (dashboard_auth server_config_default)\<lparr>da_token := ds_dashboard_token ds\<rparr>\<rparr>
             in if validate_dashboard_token ct_eq check_cfg token then
                  (\<lparr>lr_status = 200,
                    lr_set_cookie = Some (build_session_cookie new_id (ss_ttl_secs st1)
                                           (is_tls_enabled ds hs)),
                    lr_success = True, lr_message = ''Login successful''\<rparr>,
                   session_create now new_id st1)
                else
                  (\<lparr>lr_status = 401, lr_set_cookie = None, lr_success = False,
                    lr_message = ''Invalid admin token''\<rparr>, st1)))"

record auth_check_reply =
  ac_authenticated :: bool
  ac_auth_required :: bool
  ac_tls_enabled :: bool

definition api_auth_check :: "dashboard_state \<Rightarrow> instant \<Rightarrow> req_headers \<Rightarrow> session_store
    \<Rightarrow> auth_check_reply \<times> session_store" where
  "api_auth_check ds now hs st =
     (case is_authenticated ds now hs st of
        (ok, st1) \<Rightarrow>
          (\<lparr>ac_authenticated = ok, ac_auth_required = ds_auth_enabled ds,
            ac_tls_enabled = is_tls_enabled ds hs\<rparr>, st1))"

definition api_logout :: "req_headers \<Rightarrow> session_store \<Rightarrow> login_reply \<times> session_store" where
  "api_logout hs st =
     (\<lparr>lr_status = 200, lr_set_cookie = Some build_clear_cookie, lr_success = True,
       lr_message = ''Logged out''\<rparr>,
      (case extract_session_id hs of Some session_id \<Rightarrow> session_invalidate session_id st | None \<Rightarrow> st))"

section \<open>The guarded API\<close>

record status_reply =
  st_status :: string
  st_version :: string
  st_connected_clients :: nat
  st_domain :: string
  st_control_port :: u16
  st_client_token :: string
  st_install_url :: string
  st_install_command :: string
  st_config_command :: string
  st_example_command :: string

text \<open>The error is the status of the refusal.\<close>

definition guarded :: "dashboard_state \<Rightarrow> instant \<Rightarrow> req_headers \<Rightarrow> 'a \<Rightarrow> session_store
    \<Rightarrow> (nat, 'a) res \<times> session_store" where
  "guarded ds now hs body st =
     (case is_authenticated ds now hs st of
        (False, st1) \<Rightarrow> (Inl 401, st1)
      | (True, st1) \<Rightarrow> (Inr body, st1))"

definition status_body :: "string \<Rightarrow> dashboard_state \<Rightarrow> nat \<Rightarrow> status_reply" where
  "status_body version ds connected =
     (let url = ''https://dashboard.'' @ ds_domain ds @ ''/install''
      in \<lparr>st_status = ''running'', st_version = version, st_connected_clients = connected,
          st_domain = ds_domain ds, st_control_port = ds_control_port ds,
          st_client_token = ds_client_token ds, st_install_url = url,
          st_install_command = ''curl -sSL '' @ url @ '' | bash'',
          st_config_command = ''zotunnel config set --server '' @ ds_domain ds @ '':''
            @ show_nat (unat (ds_control_port ds)) @ '' --token '' @ ds_client_token ds,
          st_example_command = ''zotunnel http 3000 --name my-app -d''\<rparr>)"

definition api_status :: "string \<Rightarrow> dashboard_state \<Rightarrow> instant \<Rightarrow> req_headers \<Rightarrow> registry
    \<Rightarrow> session_store \<Rightarrow> (nat, status_reply) res \<times> session_store" where
  "api_status version ds now hs r st =
     guarded ds now hs (status_body version ds (registry_count r)) st"

definition api_clients :: "dashboard_state \<Rightarrow> instant \<Rightarrow> req_headers \<Rightarrow> registry \<Rightarrow> heap
    \<Rightarrow> session_store \<Rightarrow> (nat, client_info list) res \<times> session_store" where
  "api_clients ds now hs r hp st = guarded ds now hs (registry_list hp r) st"

definition api_metrics :: "dashboard_state \<Rightarrow> instant \<Rightarrow> req_headers \<Rightarrow> metrics
    \<Rightarrow> session_store \<Rightarrow> (nat, metrics_snapshot) res \<times> session_store" where
  "api_metrics ds now hs m st = guarded ds now hs (snapshot now m) st"

section \<open>Install script and downloads\<close>

definition script_lines :: "string \<Rightarrow> u16 \<Rightarrow> string list" where
  \<open>script_lines domn port =
     [''#!/usr/bin/env bash'',
      ''set -euo pipefail'',
      [],
      ''DOMAIN='' @ dquote @ domn @ dquote,
      ''CONTROL_PORT='' @ dquote @ show_nat (unat port) @ dquote,
      ''BASE='' @ dquote @ ''https://dashboard.${DOMAIN}'' @ dquote,
      ''INSTALL_DIR='' @ dquote @ ''$HOME/.zotunnel/bin'' @ dquote,
      ''mkdir -p '' @ dquote @ ''$INSTALL_DIR'' @ dquote,
      [],
      ''OS='' @ dquote @ ''$(uname -s | tr '' @ squote @ ''[:upper:]'' @ squote @ '' ''
         @ squote @ ''[:lower:]'' @ squote @ '')'' @ dquote,
      ''ARCH='' @ dquote @ ''$(uname -m)'' @ dquote,
      ''case '' @ dquote @ ''$OS'' @ dquote @ '' in'',
      ''  linux) OS_LABEL=linux ;;'',
      ''  darwin) OS_LABEL=darwin ;;'',
      ''  *) echo '' @ dquote @ ''Unsupported OS: $OS'' @ dquote @ ''; exit 1 ;;'',
      ''esac'',
      ''case '' @ dquote @ ''$ARCH'' @ dquote @ '' in'',
      ''  x86_64|amd64) ARCH_LABEL=amd64 ;;'',
      ''  aarch64|arm64) ARCH_LABEL=arm64 ;;'',
      ''  *) echo '' @ dquote @ ''Unsupported arch: $ARCH'' @ dquote @ ''; exit 1 ;;'',
      ''esac'',
      [],
      ''FILE='' @ dquote @ ''zotunnel-${OS_LABEL}-${ARCH_LABEL}'' @ dquote,
      ''URL='' @ dquote @ ''${BASE}/download/${FILE}'' @ dquote,
      ''SRC_URL='' @ dquote @ ''${BASE}/download/zotunnel-src.tar.gz'' @ dquote,
      [],
      ''install_from_source() {'',
      ''  echo '' @ dquote @ [CHR 0xE2, CHR 0x96, CHR 0xB8]
         @ '' Prebuilt binary not available for ${OS_LABEL}-${ARCH_LABEL}'' @ dquote,
      ''  echo '' @ dquote @ [CHR 0xE2, CHR 0x96, CHR 0xB8]
         @ '' Building zotunnel from source (needs Rust + network)...'' @ dquote,
      ''  if ! command -v cargo >/dev/null 2>&1; then'',
      ''    echo '' @ dquote @ [CHR 0xE2, CHR 0x96, CHR 0xB8]
         @ '' Installing Rust toolchain...'' @ dquote,
      ''    curl --proto '' @ squote @ ''=https'' @ squote
         @ '' --tlsv1.2 -sSf https://sh.rustup.rs | sh -s -- -y --profile minimal'',
      ''    # shellcheck disable=SC1091'',
      ''    source '' @ dquote @ ''$HOME/.cargo/env'' @ dquote,
      ''  fi'',
      ''  TMP='' @ dquote @ ''$(mktemp -d)'' @ dquote,
      ''  trap '' @ squote @ ''rm -rf '' @ dquote @ ''$TMP'' @ dquote @ squote @ '' EXIT'',
      ''  curl -fsSL '' @ dquote @ ''$SRC_URL'' @ dquote @ '' -o '' @ dquote
         @ ''$TMP/src.tar.gz'' @ dquote,
      ''  mkdir -p '' @ dquote @ ''$TMP/src'' @ dquote,
      ''  tar -xzf '' @ dquote @ ''$TMP/src.tar.gz'' @ dquote @ '' -C '' @ dquote
         @ ''$TMP/src'' @ dquote,
      ''  cargo build --release --manifest-path '' @ dquote @ ''$TMP/src/Cargo.toml'' @ dquote
         @ '' -p zo-tunnel-client'',
      ''  cp '' @ dquote @ ''$TMP/src/target/release/zotunnel'' @ dquote @ '' '' @ dquote
         @ ''$INSTALL_DIR/zotunnel'' @ dquote,
      ''  chmod +x '' @ dquote @ ''$INSTALL_DIR/zotunnel'' @ dquote,
      ''}'',
      [],
      ''echo '' @ dquote @ [CHR 0xE2, CHR 0x96, CHR 0xB8] @ '' Downloading ${FILE}...''
         @ dquote,
      ''if curl -fsSL '' @ dquote @ ''$URL'' @ dquote @ '' -o '' @ dquote
         @ ''$INSTALL_DIR/zotunnel'' @ dquote @ ''; then'',
      ''  chmod +x '' @ dquote @ ''$INSTALL_DIR/zotunnel'' @ dquote,
      ''else'',
      ''  install_from_source'',
      ''fi'',
      [],
      ''SHELL_RC='' @ dquote @ dquote,
      ''case '' @ dquote @ ''${SHELL:-}'' @ dquote @ '' in'',
      ''  */zsh) SHELL_RC='' @ dquote @ ''$HOME/.zshrc'' @ dquote @ '' ;;'',
      ''  */bash) SHELL_RC='' @ dquote @ ''$HOME/.bashrc'' @ dquote @ '' ;;'',
      ''  *) SHELL_RC='' @ dquote @ ''$HOME/.profile'' @ dquote @ '' ;;'',
      ''esac'',
      ''if [ -n '' @ dquote @ ''$SHELL_RC'' @ dquote @ '' ] && ! grep -q '' @ squote
         @ ''.zotunnel/bin'' @ squote @ '' '' @ dquote @ ''$SHELL_RC'' @ dquote
         @ '' 2>/dev/null; then'',
      ''  echo '' @ squote @ ''export PATH='' @ dquote @ ''$HOME/.zotunnel/bin:$PATH''
         @ dquote @ squote @ '' >> '' @ dquote @ ''$SHELL_RC'' @ dquote,
      ''fi'',
      ''export PATH='' @ dquote @ ''$INSTALL_DIR:$PATH'' @ dquote,
      [],
      ''echo '' @ dquote @ [CHR 0xE2, CHR 0x9C, CHR 0x85]
         @ '' zotunnel installed to $INSTALL_DIR/zotunnel'' @ dquote,
      ''echo'',
      ''echo '' @ dquote @ ''Next:'' @ dquote,
      ''echo '' @ dquote
         @ ''  zotunnel config set --server ${DOMAIN}:${CONTROL_PORT} --token <TOKEN>'' @ dquote,
      ''echo '' @ dquote @ ''  zotunnel http 3000'' @ dquote]\<close>

definition serve_install_script :: "dashboard_state \<Rightarrow> string" where
  "serve_install_script ds =
     concat (map (\<lambda>l. l @ [CHR 0x0A]) (script_lines (ds_domain ds) (ds_control_port ds)))"

text \<open>The message of a failed read leaves out the operating system's text.\<close>

definition download_char :: "nat \<Rightarrow> bool" where
  "download_char c \<longleftrightarrow> (48 \<le> c \<and> c \<le> 57) \<or> (65 \<le> c \<and> c \<le> 90) \<or> (97 \<le> c \<and> c \<le> 122)
     \<or> c = 45 \<or> c = 95 \<or> c = 46"

record download =
  dl_disposition :: string
  dl_data :: string

definition serve_download :: "dashboard_state \<Rightarrow> fs \<Rightarrow> string \<Rightarrow> (nat \<times> string, download) res" where
  "serve_download ds s filename =
     (if \<not> list_all download_char (chars filename) \<or> contains_str ''..'' filename
      then Inl (400, ''invalid filename'')
      else
        let path = path_join (ds_clients_dir ds) filename;
            alt = path_join (ds_clients_dir ds) (filename @ ''.tar.gz'');
            read = (\<lambda>p name.
              case fs_read s p of
                Inl _ \<Rightarrow> Inl (500, ''read error: '')
              | Inr d \<Rightarrow> Inr \<lparr>dl_disposition = ''attachment; filename='' @ dquote @ name @ dquote,
                              dl_data = d\<rparr>)
        in if fs_is_file s path then read path filename
           else if fs_is_file s alt then read alt (filename @ ''.tar.gz'')
           else Inl (404, filename @ '' not found''))"

section \<open>Histories\<close>

text \<open>What browsers do, with the time, oldest first: a login attempt (the id a new session would
  get, the token given), a logout, or any other request.\<close>

datatype dash_event =
  Login instant string string req_headers
| Logout instant req_headers
| Visit instant req_headers

fun event_time :: "dash_event \<Rightarrow> instant" where
  "event_time (Login t _ _ _) = t"
| "event_time (Logout t _) = t"
| "event_time (Visit t _) = t"

fun dash_step :: "(bytes \<Rightarrow> bytes \<Rightarrow> bool) \<Rightarrow> dashboard_state \<Rightarrow> session_store \<Rightarrow> dash_event
    \<Rightarrow> session_store" where
  "dash_step ct_eq ds st (Login now new_id token hs) = snd (api_login ct_eq ds now new_id hs token st)"
| "dash_step ct_eq ds st (Logout now hs) = snd (api_logout hs st)"
| "dash_step ct_eq ds st (Visit now hs) = snd (is_authenticated ds now hs st)"

definition dash_run :: "(bytes \<Rightarrow> bytes \<Rightarrow> bool) \<Rightarrow> dashboard_state \<Rightarrow> u64 \<Rightarrow> dash_event list
    \<Rightarrow> session_store" where
  "dash_run ct_eq ds ttl es = foldl (dash_step ct_eq ds) (session_store_new ttl) es"

text \<open>The specification, over the history alone, newest event first: when an id was last given out
  to someone who knew the token and not logged out since, and who counts as logged in.\<close>

fun issued :: "string \<Rightarrow> nat \<Rightarrow> dash_event list \<Rightarrow> string \<Rightarrow> instant option" where
  "issued secret ttl [] i = None"
| "issued secret ttl (Login now new_id token hs # es) i =
     (if i = new_id \<and> token = secret
         \<and> \<not> (\<exists>c t. extract_session_id hs = Some c \<and> issued secret ttl es c = Some t
              \<and> as_secs (elapsed now t) < ttl)
      then Some now else issued secret ttl es i)"
| "issued secret ttl (Logout now hs # es) i =
     (if extract_session_id hs = Some i then None else issued secret ttl es i)"
| "issued secret ttl (Visit now hs # es) i = issued secret ttl es i"

definition logged_in :: "string \<Rightarrow> nat \<Rightarrow> dash_event list \<Rightarrow> instant \<Rightarrow> req_headers \<Rightarrow> bool" where
  "logged_in secret ttl es now hs \<longleftrightarrow>
     (\<exists>c t. extract_session_id hs = Some c \<and> issued secret ttl es c = Some t
        \<and> as_secs (elapsed now t) < ttl)"

text \<open>The store agrees with the history up to sessions that have expired by \<open>T\<close>.\<close>

definition store_agrees :: "string \<Rightarrow> u64 \<Rightarrow> dash_event list \<Rightarrow> instant \<Rightarrow> session_store \<Rightarrow> bool" where
  "store_agrees secret ttl es T st \<longleftrightarrow>
     dm_wf (ss_sessions st) \<and> ss_ttl_secs st = ttl
     \<and> (\<forall>i t. dm_get (ss_sessions st) i = Some t \<longrightarrow> issued secret (unat ttl) es i = Some t)
     \<and> (\<forall>i t. issued secret (unat ttl) es i = Some t \<longrightarrow>
          dm_get (ss_sessions st) i = Some t \<or> \<not> as_secs (elapsed T t) < unat ttl)"

lemma as_secs_mono: "a \<le> b \<Longrightarrow> as_secs a \<le> as_secs b"
  by (simp add: as_secs_def div_le_mono)

lemma expired_mono:
  "T \<le> now \<Longrightarrow> \<not> as_secs (elapsed T t) < n \<Longrightarrow> \<not> as_secs (elapsed now t) < n"
  using as_secs_mono [of "elapsed T t" "elapsed now t"] by (simp add: elapsed_def diff_le_mono)

lemma store_agrees_later:
  "store_agrees secret ttl es T st \<Longrightarrow> T \<le> now \<Longrightarrow> store_agrees secret ttl es now st"
  unfolding store_agrees_def using expired_mono by blast

lemma validate_agrees:
  assumes "store_agrees secret ttl es now st"
  shows "fst (session_validate now i st) \<longleftrightarrow>
      (\<exists>t. issued secret (unat ttl) es i = Some t \<and> as_secs (elapsed now t) < unat ttl)"
    "store_agrees secret ttl es now (snd (session_validate now i st))"
proof -
  note A = assms [unfolded store_agrees_def]
  show "fst (session_validate now i st) \<longleftrightarrow>
      (\<exists>t. issued secret (unat ttl) es i = Some t \<and> as_secs (elapsed now t) < unat ttl)"
  proof (cases "dm_get (ss_sessions st) i")
    case None
    then have "\<not> (\<exists>t. issued secret (unat ttl) es i = Some t \<and> as_secs (elapsed now t) < unat ttl)"
      using A by (metis option.distinct(1))
    then show ?thesis using None by (simp add: session_validate_def)
  next
    case (Some t)
    then have "issued secret (unat ttl) es i = Some t" using A by blast
    then show ?thesis using A Some by (auto simp: session_validate_def)
  qed
  show "store_agrees secret ttl es now (snd (session_validate now i st))"
    using A by (auto simp: session_validate_def store_agrees_def dm_remove_get
        split: option.splits if_splits)
qed

lemma authenticated_agrees:
  assumes "store_agrees secret ttl es now st" "ds_auth_enabled ds"
  shows "fst (is_authenticated ds now hs st) \<longleftrightarrow> logged_in secret (unat ttl) es now hs"
    "store_agrees secret ttl es now (snd (is_authenticated ds now hs st))"
  using assms validate_agrees [OF assms(1)]
  by (auto simp: is_authenticated_def logged_in_def split: option.splits)

lemma step_agrees:
  assumes agree: "store_agrees secret ttl es (event_time ev) st" and ds: "ds_auth_enabled ds"
    "secret = ds_dashboard_token ds" "secret \<noteq> []"
    and ct: "\<And>a b. length a = length b \<Longrightarrow> ct_eq a b \<longleftrightarrow> a = b"
  shows "store_agrees secret ttl (ev # es) (event_time ev) (dash_step ct_eq ds st ev)"
proof (cases ev)
  case (Logout now hs)
  then show ?thesis
    using agree by (auto simp: api_logout_def session_invalidate_def store_agrees_def dm_remove_get
        split: option.splits)
next
  case (Visit now hs)
  then show ?thesis
    using authenticated_agrees(2) [OF agree ds(1), of hs] by (simp add: store_agrees_def)
next
  case (Login now new_id token hs)
  note A = authenticated_agrees [OF agree [unfolded Login event_time.simps] ds(1), of hs]
  obtain ok st1 where st1: "is_authenticated ds now hs st = (ok, st1)"
    by (cases "is_authenticated ds now hs st")
  have check: "validate_dashboard_token ct_eq (server_config_default\<lparr>dashboard_auth :=
      (dashboard_auth server_config_default)\<lparr>da_token := ds_dashboard_token ds\<rparr>\<rparr>) token
      \<longleftrightarrow> token = secret"
    using ds by (simp add: validate_dashboard_token_iff [OF ct] dashboard_auth_enabled_def)
  have ok: "ok \<longleftrightarrow> logged_in secret (unat ttl) es now hs" using A(1) st1 by simp
  have agree1: "store_agrees secret ttl es now st1" using A(2) st1 by simp
  have step: "dash_step ct_eq ds st ev =
      (if \<not> ok \<and> token = secret then session_create now new_id st1 else st1)"
    using st1 ds(1) check by (cases ok) (simp_all add: Login api_login_def Let_def)
  have iss: "issued secret (unat ttl) (ev # es) i =
      (if i = new_id \<and> token = secret \<and> \<not> ok then Some now else issued secret (unat ttl) es i)" for i
    unfolding ok logged_in_def Login by simp
  have time: "event_time ev = now" by (simp add: Login)
  show ?thesis
    unfolding step time using agree1
    by (auto simp: store_agrees_def iss session_create_def dm.get_put)
qed

lemma run_agrees:
  assumes "sorted (map event_time es)" and "\<forall>e \<in> set es. event_time e \<le> T"
    and "ds_auth_enabled ds" "secret = ds_dashboard_token ds" "secret \<noteq> []"
    and ct: "\<And>a b. length a = length b \<Longrightarrow> ct_eq a b \<longleftrightarrow> a = b"
  shows "store_agrees secret ttl (rev es) T (dash_run ct_eq ds ttl es)"
  using assms(1,2)
proof (induction es arbitrary: T rule: rev_induct)
  case Nil
  then show ?case
    by (simp add: dash_run_def session_store_new_def store_agrees_def dm_wf_intros)
next
  case (snoc e es)
  then have "store_agrees secret ttl (rev es) (event_time e) (dash_run ct_eq ds ttl es)"
    by (intro snoc.IH) (auto simp: sorted_append)
  from step_agrees [OF this assms(3-5) ct] show ?case
    using store_agrees_later snoc.prems(2) by (fastforce simp: dash_run_def)
qed

section \<open>Cookies and file names\<close>

lemma of_char_eq_iff: "(of_char c :: nat) = of_char d \<longleftrightarrow> c = d"
  by simp

lemma trim_ascii:
  assumes "ascii s" "s \<noteq> []" "\<not> is_whitespace (of_char (hd s))" "\<not> is_whitespace (of_char (last s))"
  shows "trim s = s"
proof -
  have "trim_list is_whitespace (str_bytes s) = str_bytes s"
    using assms by (intro trim_list_id) (simp_all add: str_bytes_def hd_map last_map)
  then show ?thesis
    using of_chars_chars [OF ascii_is_str [OF assms(1)]] by (simp add: trim_def chars_ascii [OF assms(1)])
qed

lemma trim_space: "trim (CHR '' '' # s) = trim s"
proof -
  have "chars (CHR '' '' # s) = [32] @ chars s"
    using chars_append_ascii [of "'' ''" s] by (simp add: str_bytes_def)
  then show ?thesis
    using trim_list_drop_prefix [of is_whitespace "[32]" "chars s"]
    by (simp add: trim_def is_whitespace_def)
qed

definition plain_id :: "string \<Rightarrow> bool" where
  "plain_id i \<longleftrightarrow> i \<noteq> [] \<and> list_all (\<lambda>c. is_ascii_alphanumeric c \<or> c = CHR ''-'') i"

lemma plain_char:
  "is_ascii_alphanumeric c \<or> c = CHR ''-'' \<Longrightarrow> (of_char c :: nat) < 128
    \<and> \<not> is_whitespace (of_char c) \<and> c \<noteq> CHR '';''"
  by (auto simp: is_ascii_alphanumeric_def is_whitespace_def Let_def)

lemma trim_session_pair:
  assumes "plain_id i"
  shows "trim (COOKIE_NAME @ ''='' @ i) = COOKIE_NAME @ ''='' @ i"
proof (rule trim_ascii)
  have "list_all (\<lambda>c. (of_char c :: nat) < 128) i"
    using assms plain_char by (auto simp: plain_id_def list_all_iff)
  then show "ascii (COOKIE_NAME @ ''='' @ i)" by (simp add: COOKIE_NAME_def ascii_def)
  have "last i \<in> set i" using assms by (simp add: plain_id_def)
  then show "\<not> is_whitespace (of_char (last (COOKIE_NAME @ ''='' @ i)))"
    using assms plain_char by (auto simp: plain_id_def list_all_iff)
qed (simp_all add: COOKIE_NAME_def is_whitespace_def)

lemma find_session_id_skip:
  "\<forall>p \<in> set ps. \<not> starts_with COOKIE_NAME (trim p) \<Longrightarrow> find_session_id (ps @ qs) = find_session_id qs"
  by (induction ps) (auto simp: starts_with_def split: option.split)

lemma plain_id_no_semicolon: "plain_id i \<Longrightarrow> CHR '';'' \<notin> set i"
  using plain_char by (fastforce simp: plain_id_def list_all_iff)

section \<open>Properties\<close>

text \<open>C6: The login sessions implement their specification. After any history of logins, logouts
  and visits, in time order, a request counts as authenticated exactly if its cookie names a session
  that was given out to someone who knew the dashboard token, was not logged out since, and is not
  older than the lifetime. So sessions cannot be forged, do not outlive their lifetime or a logout,
  and are never lost early.\<close>

theorem dashboard_sessions_refine:
  assumes "sorted (map event_time es @ [now])" and "dashboard_auth_enabled cfg"
    and "\<And>a b. length a = length b \<Longrightarrow> ct_eq a b \<longleftrightarrow> a = b"
  shows "fst (is_authenticated (dashboard_state_of cfg) now hs
        (dash_run ct_eq (dashboard_state_of cfg) ttl es))
    \<longleftrightarrow> logged_in (da_token (dashboard_auth cfg)) (unat ttl) (rev es) now hs"
proof (rule authenticated_agrees(1))
  show "store_agrees (da_token (dashboard_auth cfg)) ttl (rev es) now
      (dash_run ct_eq (dashboard_state_of cfg) ttl es)"
    using assms(1,2) by (intro run_agrees [OF _ _ _ _ _ assms(3)])
      (auto simp: sorted_append dashboard_state_of_def dashboard_auth_enabled_def)
qed (use assms(2) in \<open>simp add: dashboard_state_of_def\<close>)

abbreviation session_header :: "string \<Rightarrow> req_headers" where
  "session_header i \<equiv> \<lparr>rh_cookie = Some (COOKIE_NAME @ ''='' @ i), rh_forwarded_proto = None\<rparr>"

lemma extract_session_header: "plain_id i \<Longrightarrow> extract_session_id (session_header i) = Some i"
proof -
  assume i: "plain_id i"
  then have "split_on CHR '';'' (COOKIE_NAME @ ''='' @ i) = [COOKIE_NAME @ ''='' @ i]"
    using plain_id_no_semicolon by (intro split_on_free) (auto simp: COOKIE_NAME_def)
  then show ?thesis
    using trim_session_pair [OF i] i by (simp add: extract_session_id_def plain_id_def)
qed

theorem dashboard_sessions_refine_witness:
  "fst (is_authenticated (dashboard_state_of (server_config_default\<lparr>dashboard_auth :=
        \<lparr>da_token = ''pw'', da_session_ttl_secs = 60\<rparr>\<rparr>)) 5 (session_header ''id1'')
      (dash_run (=) (dashboard_state_of (server_config_default\<lparr>dashboard_auth :=
          \<lparr>da_token = ''pw'', da_session_ttl_secs = 60\<rparr>\<rparr>)) 60
        [Login 3 ''id1'' ''pw'' \<lparr>rh_cookie = None, rh_forwarded_proto = None\<rparr>]))"
proof -
  have "extract_session_id (session_header ''id1'') = Some ''id1''"
    by (rule extract_session_header) (simp add: plain_id_def is_ascii_alphanumeric_def)
  moreover have "extract_session_id \<lparr>rh_cookie = None, rh_forwarded_proto = None\<rparr> = None"
    by (simp add: extract_session_id_def)
  ultimately show ?thesis
    by (subst dashboard_sessions_refine)
       (simp_all add: dashboard_auth_enabled_def logged_in_def as_secs_def elapsed_def nanos_per_sec_def)
qed

text \<open>C37: The cookie a login sets is the cookie the server reads back: in a \<open>Cookie\<close> header
  with any other cookies before and after, the session id is found, provided no cookie before it has
  a name that begins with the session cookie's name.\<close>

theorem session_cookie_roundtrip:
  assumes "plain_id i" and "sp = [] \<or> sp = '' ''" and "rest = [] \<or> hd rest = CHR '';''"
    and "\<forall>p \<in> set others. CHR '';'' \<notin> set p \<and> \<not> starts_with COOKIE_NAME (trim p)"
  shows "(\<exists>attrs. build_session_cookie i age tls = (COOKIE_NAME @ ''='' @ i) @ '';'' @ attrs)
    \<and> extract_session_id \<lparr>rh_cookie = Some (concat (map (\<lambda>p. p @ '';'') others) @ sp
        @ (COOKIE_NAME @ ''='' @ i) @ rest), rh_forwarded_proto = fp\<rparr> = Some i"
proof -
  let ?pair = "COOKIE_NAME @ ''='' @ i"
  have free: "CHR '';'' \<notin> set (sp @ ?pair)"
    using assms(2) plain_id_no_semicolon [OF assms(1)] by (auto simp: COOKIE_NAME_def)
  have "\<exists>more. split_on CHR '';'' ((sp @ ?pair) @ rest) = (sp @ ?pair) # more"
  proof (cases rest)
    case (Cons c r)
    then show ?thesis using assms(3) split_on_append [OF free, of r] by simp
  qed (use split_on_free [OF free] in simp)
  then obtain more where more: "split_on CHR '';'' (sp @ ?pair @ rest) = (sp @ ?pair) # more" by auto
  have "split_on CHR '';'' (concat (map (\<lambda>p. p @ '';'') others) @ sp @ ?pair @ rest)
      = others @ (sp @ ?pair) # more"
    using split_on_concat [of others "CHR '';''"] assms(4) more by simp
  moreover have "trim (sp @ ?pair) = ?pair"
    using assms(2) trim_session_pair [OF assms(1)] by (auto simp: trim_space)
  moreover have "find_session_id (others @ (sp @ ?pair) # more) = find_session_id ((sp @ ?pair) # more)"
    using assms(4) by (intro find_session_id_skip) simp
  ultimately have "extract_session_id \<lparr>rh_cookie = Some (concat (map (\<lambda>p. p @ '';'') others) @ sp
        @ ?pair @ rest), rh_forwarded_proto = fp\<rparr> = Some i"
    using assms(1) by (simp add: extract_session_id_def plain_id_def)
  moreover have "build_session_cookie i age tls = ?pair @ '';'' @ (tl ''; Path=/; HttpOnly; SameSite=Strict; Max-Age=''
       @ show_nat (unat age) @ (if tls then ''; Secure'' else []))"
    by (simp add: build_session_cookie_def)
  ultimately show ?thesis by auto
qed

theorem session_cookie_roundtrip_witness:
  "extract_session_id \<lparr>rh_cookie = Some (''lang=en;'' @ '' '' @ (COOKIE_NAME @ ''='' @ ''id1'') @ []),
     rh_forwarded_proto = None\<rparr> = Some ''id1''"
proof -
  have "trim ''lang=en'' = ''lang=en''" by (rule trim_ascii) (simp_all add: is_whitespace_def)
  then show ?thesis
    using session_cookie_roundtrip [of "''id1''" "'' ''" "[]" "[''lang=en'']"]
    by (simp add: plain_id_def is_ascii_alphanumeric_def COOKIE_NAME_def starts_with_iff)
qed

text \<open>A cookie whose name merely begins with the session cookie's name hides the session: with
  \<open>zo-session-theme\<close> before it, no session id is found, whatever session the browser holds.\<close>

theorem session_cookie_shadowed:
  "extract_session_id \<lparr>rh_cookie = Some (''zo-session-theme=dark; zo-session='' @ i),
     rh_forwarded_proto = fp\<rparr> = None"
proof -
  have "trim ''zo-session-theme=dark'' = ''zo-session-theme=dark''"
    by (rule trim_ascii) (simp_all add: is_whitespace_def)
  moreover have "split_on CHR '';'' (''zo-session-theme=dark'' @ CHR '';'' # '' zo-session='' @ i)
      = ''zo-session-theme=dark'' # split_on CHR '';'' ('' zo-session='' @ i)"
    by (rule split_on_append) simp
  ultimately show ?thesis
    by (simp add: extract_session_id_def COOKIE_NAME_def del: split_on.simps)
qed

lemma download_name_plain:
  assumes "is_str f" "list_all download_char (chars f)"
  shows "CHR ''/'' \<notin> set f"
proof -
  have small: "list_all (\<lambda>c. c < 128) (chars f)"
    using assms(2) by (auto simp: list_all_iff download_char_def)
  have "f = map char_of (chars f)"
    using of_chars_chars [OF assms(1)] encode_ascii [OF small] by (simp add: of_chars_def)
  moreover have "char_of c \<noteq> CHR ''/''" if "c \<in> set (chars f)" for c :: nat
  proof
    assume "char_of c = CHR ''/''"
    then have "(of_char (char_of c :: char) :: nat) = 47" by simp
    moreover have "c < 256" using that small by (auto simp: list_all_iff)
    ultimately have "c = 47" by simp
    then show False using that assms(2) by (auto simp: list_all_iff download_char_def)
  qed
  ultimately show ?thesis by (metis (no_types, lifting) imageE set_map)
qed

text \<open>C38: A download never leaves the clients' directory: what is sent is the content of a plain
  file that lies directly in it, under the requested name or that name with \<open>.tar.gz\<close>, and a name
  with a separator or two dots in a row is refused.\<close>

theorem download_confined:
  assumes "is_str f" and "f \<noteq> []" and "serve_download ds s f = Inr d"
  shows "\<exists>n p. (n = f \<or> n = f @ ''.tar.gz'') \<and> dir_name (ds_clients_dir ds) p = Some n
    \<and> fs_content s p = Some (dl_data d) \<and> \<not> fs_is_dir s p
    \<and> CHR ''/'' \<notin> set f \<and> \<not> contains_str ''..'' f"
proof -
  have ok: "list_all download_char (chars f)" "\<not> contains_str ''..'' f"
    using assms(3) by (auto simp: serve_download_def split: if_splits)
  then have plain: "CHR ''/'' \<notin> set f" "CHR ''/'' \<notin> set (f @ ''.tar.gz'')"
    using download_name_plain [OF assms(1)] by auto
  have "\<exists>n. (n = f \<or> n = f @ ''.tar.gz'')
      \<and> fs_read s (path_join (ds_clients_dir ds) n) = Inr (dl_data d)"
    using assms(3) ok by (auto simp: serve_download_def Let_def split: if_splits sum.splits)
  then obtain n where n: "n = f \<or> n = f @ ''.tar.gz''"
    "fs_read s (path_join (ds_clients_dir ds) n) = Inr (dl_data d)" by blast
  then have "dir_name (ds_clients_dir ds) (path_join (ds_clients_dir ds) n) = Some n"
    using plain assms(2) by (auto simp: dir_name_eq_Some)
  moreover have "fs_content s (path_join (ds_clients_dir ds) n) = Some (dl_data d)"
    "\<not> fs_is_dir s (path_join (ds_clients_dir ds) n)"
    using n(2) by (auto simp: fs_read_def split: if_splits option.splits)
  ultimately show ?thesis using n(1) ok plain by blast
qed

abbreviation demo_dashboard :: dashboard_state where
  "demo_dashboard \<equiv> \<lparr>ds_dashboard_token = ''pw'', ds_client_token = ''x'', ds_auth_enabled = True,
     ds_tls_enabled = False, ds_domain = ''t.io'', ds_control_port = 1, ds_clients_dir = ''/c''\<rparr>"

lemma chars_download: "ascii f \<Longrightarrow> list_all download_char (str_bytes f) \<Longrightarrow> list_all download_char (chars f)"
  by (simp add: chars_ascii)

text \<open>The file names the install script asks for.\<close>

definition script_names :: "string list" where
  "script_names = [''zotunnel-linux-amd64'', ''zotunnel-linux-arm64'', ''zotunnel-darwin-amd64'',
     ''zotunnel-darwin-arm64'', ''zotunnel-src.tar.gz'']"

lemma script_names_accepted:
  "n \<in> set script_names \<Longrightarrow> list_all download_char (chars n) \<and> \<not> contains_str ''..'' n"
  by (auto simp: script_names_def chars_ascii str_bytes_def download_char_def starts_with_iff)

text \<open>Every file the install script can ask for is served as it lies in the clients'
  directory: none of its names is refused by the check of the file name.\<close>

theorem script_downloads_served:
  assumes "n \<in> set script_names" and "fs_content s (path_join (ds_clients_dir ds) n) = Some d"
    and "\<not> fs_is_dir s (path_join (ds_clients_dir ds) n)"
  shows "\<exists>disp. serve_download ds s n = Inr \<lparr>dl_disposition = disp, dl_data = d\<rparr>"
  using script_names_accepted [OF assms(1)] assms(2,3)
  by (simp add: serve_download_def Let_def fs_is_file_def fs_read_def)

theorem script_downloads_served_witness:
  "\<exists>disp. serve_download demo_dashboard
     \<lparr>fs_files = [(''/c/zotunnel-src.tar.gz'', ''abc'')], fs_dirs = [''/c''], fs_denied = [],
       fs_writes = []\<rparr> ''zotunnel-src.tar.gz'' = Inr \<lparr>dl_disposition = disp, dl_data = ''abc''\<rparr>"
  by (rule script_downloads_served)
     (simp_all add: script_names_def path_join_def starts_with_iff dm_get_def fs_is_dir_def)

theorem download_confined_witness:
  "\<exists>p. dir_name ''/c'' p = Some ''a.tar.gz''"
proof -
  have "chars ''a'' = [97]" by (simp add: chars_ascii str_bytes_def)
  then have "serve_download demo_dashboard \<lparr>fs_files = [(''/c/a.tar.gz'', ''abc'')],
       fs_dirs = [''/c''], fs_denied = [], fs_writes = []\<rparr> ''a''
      = Inr \<lparr>dl_disposition = ''attachment; filename='' @ dquote @ ''a.tar.gz'' @ dquote, dl_data = ''abc''\<rparr>"
    by (simp add: serve_download_def Let_def download_char_def starts_with_iff fs_is_file_def
        path_join_def dm_get_def fs_read_def fs_is_dir_def)
  from download_confined [OF _ _ this] show ?thesis
    by (auto simp: dm_get_def dir_name_eq_Some path_join_def starts_with_iff split: if_splits)
qed

end
