(* ===== verification/Dashboard_Http.thy ===== *)
theory Dashboard_Http
  imports Dashboard Proxy
begin

text \<open>
  The dashboard behind HTTP: the table of routes of \<open>create_router\<close> in \<open>dashboard.rs\<close>, the
  handlers each route runs, and \<open>handle_dashboard\<close> of \<open>server.rs\<close>.

  The router and the extractors are those of \<open>axum\<close>: \<open>ax_pick\<close> looks a method and a path up
  in a table of routes and gives the endpoint with the captured part of the path, or the status of
  its refusal, and \<open>ax_login_json\<close> reads the token of a login request. The replies are kept as
  the values the handlers make, before they are rendered.
\<close>

section \<open>Routes\<close>

datatype http_method = Get | Post

datatype endpoint =
  DashboardUi
| DashboardCss
| DashboardJs
| ApiLogin
| ApiAuthCheck
| ApiStatus
| ApiClients
| ApiMetrics
| ApiLogout
| ServeInstallScript
| ServeDownload

type_synonym route = "string \<times> http_method \<times> endpoint"

definition create_router :: "route list" where
  "create_router =
     [(''/'', Get, DashboardUi),
      (''/style.css'', Get, DashboardCss),
      (''/app.js'', Get, DashboardJs),
      (''/api/login'', Post, ApiLogin),
      (''/api/auth/check'', Get, ApiAuthCheck),
      (''/api/status'', Get, ApiStatus),
      (''/api/clients'', Get, ApiClients),
      (''/api/metrics'', Get, ApiMetrics),
      (''/api/logout'', Post, ApiLogout),
      (''/install'', Get, ServeInstallScript),
      (''/download/:filename'', Get, ServeDownload)]"

record ('u, 'h) axum_lib =
  ax_pick :: "route list \<Rightarrow> string \<Rightarrow> string \<Rightarrow> (nat, endpoint \<times> string) res"
  ax_login_json :: "('u, 'h) http_request \<Rightarrow> (nat, string) res"

section \<open>Replies\<close>

datatype dash_reply =
  Asset string string
| LoginReply login_reply
| AuthCheckReply auth_check_reply
| StatusReply status_reply
| ClientsReply "client_info list"
| MetricsReply metrics_snapshot
| ScriptReply string
| FileReply download
| Refusal nat string

definition dashboard_ui :: dash_reply where
  "dashboard_ui = Asset ''text/html; charset=utf-8'' ''web/index.html''"

definition dashboard_css :: dash_reply where
  "dashboard_css = Asset ''text/css'' ''web/style.css''"

definition dashboard_js :: dash_reply where
  "dashboard_js = Asset ''application/javascript'' ''web/app.js''"

definition auth_required :: dash_reply where
  "auth_required = Refusal 401 ''Authentication required''"

text \<open>The guarded endpoints answer with their value or the refusal.\<close>

definition guarded_reply :: "('a \<Rightarrow> dash_reply) \<Rightarrow> (nat, 'a) res \<times> session_store
    \<Rightarrow> dash_reply \<times> session_store" where
  "guarded_reply f p = (case fst p of Inl _ \<Rightarrow> auth_required | Inr b \<Rightarrow> f b, snd p)"

text \<open>The headers the handlers read.\<close>

definition dash_headers :: "('u, 'h) http_lib \<Rightarrow> ('u, 'h) http_request \<Rightarrow> req_headers" where
  "dash_headers L req =
     \<lparr>rh_cookie = header_str L (rq_headers req) ''cookie'',
      rh_forwarded_proto = header_str L (rq_headers req) ''x-forwarded-proto''\<rparr>"

section \<open>Serving a request\<close>

text \<open>What the handlers take from their surroundings: the comparison of tokens, the version, a new
  session id.\<close>

record dash_env =
  de_ct_eq :: "bytes \<Rightarrow> bytes \<Rightarrow> bool"
  de_version :: string
  de_new_id :: string

fun serve_endpoint :: "('u, 'h) http_lib \<Rightarrow> ('u, 'h) axum_lib \<Rightarrow> dash_env \<Rightarrow> dashboard_state
    \<Rightarrow> server_state \<Rightarrow> fs \<Rightarrow> ('u, 'h) http_request \<Rightarrow> string \<Rightarrow> session_store \<Rightarrow> endpoint
    \<Rightarrow> dash_reply \<times> session_store" where
  "serve_endpoint L A env ds sv f req cap st DashboardUi = (dashboard_ui, st)"
| "serve_endpoint L A env ds sv f req cap st DashboardCss = (dashboard_css, st)"
| "serve_endpoint L A env ds sv f req cap st DashboardJs = (dashboard_js, st)"
| "serve_endpoint L A env ds sv f req cap st ApiLogin =
     (case ax_login_json A req of
        Inl status \<Rightarrow> (Refusal status [], st)
      | Inr token \<Rightarrow>
          apfst LoginReply (api_login (de_ct_eq env) ds (clock (sv_heap sv)) (de_new_id env)
            (dash_headers L req) token st))"
| "serve_endpoint L A env ds sv f req cap st ApiAuthCheck =
     apfst AuthCheckReply (api_auth_check ds (clock (sv_heap sv)) (dash_headers L req) st)"
| "serve_endpoint L A env ds sv f req cap st ApiStatus =
     guarded_reply StatusReply (api_status (de_version env) ds (clock (sv_heap sv))
       (dash_headers L req) (sv_registry sv) st)"
| "serve_endpoint L A env ds sv f req cap st ApiClients =
     guarded_reply ClientsReply (api_clients ds (clock (sv_heap sv)) (dash_headers L req)
       (sv_registry sv) (sv_heap sv) st)"
| "serve_endpoint L A env ds sv f req cap st ApiMetrics =
     guarded_reply MetricsReply (api_metrics ds (clock (sv_heap sv)) (dash_headers L req)
       (sv_metrics sv) st)"
| "serve_endpoint L A env ds sv f req cap st ApiLogout =
     apfst LoginReply (api_logout (dash_headers L req) st)"
| "serve_endpoint L A env ds sv f req cap st ServeInstallScript =
     (ScriptReply (serve_install_script ds), st)"
| "serve_endpoint L A env ds sv f req cap st ServeDownload =
     (case serve_download ds f cap of
        Inl (status, msg) \<Rightarrow> (Refusal status msg, st) | Inr d \<Rightarrow> (FileReply d, st))"

text \<open>The bodies are whole in memory, so collecting them cannot fail, and the router does not.\<close>

definition handle_dashboard :: "('u, 'h) http_lib \<Rightarrow> ('u, 'h) axum_lib \<Rightarrow> dash_env
    \<Rightarrow> dashboard_state \<Rightarrow> server_state \<Rightarrow> fs \<Rightarrow> ('u, 'h) http_request \<Rightarrow> session_store
    \<Rightarrow> dash_reply \<times> session_store" where
  "handle_dashboard L A env ds sv f req st =
     (case ax_pick A create_router (rq_method req) (uri_path L (rq_uri req)) of
        Inl status \<Rightarrow> (Refusal status [], st)
      | Inr (ep, cap) \<Rightarrow> serve_endpoint L A env ds sv f req cap st ep)"

section \<open>What a request does to the login sessions\<close>

text \<open>The entry a request makes in the history of \<open>Dashboard\<close>.\<close>

definition history_entry :: "('u, 'h) http_lib \<Rightarrow> ('u, 'h) axum_lib \<Rightarrow> dash_env \<Rightarrow> instant
    \<Rightarrow> ('u, 'h) http_request \<Rightarrow> dash_event list" where
  "history_entry L A env now req =
     (case ax_pick A create_router (rq_method req) (uri_path L (rq_uri req)) of
        Inr (ApiLogin, _) \<Rightarrow>
          (case ax_login_json A req of
             Inl _ \<Rightarrow> [] | Inr token \<Rightarrow> [Login now (de_new_id env) token (dash_headers L req)])
      | Inr (ApiLogout, _) \<Rightarrow> [Logout now (dash_headers L req)]
      | Inr (ep, _) \<Rightarrow>
          if ep \<in> {ApiAuthCheck, ApiStatus, ApiClients, ApiMetrics}
          then [Visit now (dash_headers L req)] else []
      | _ \<Rightarrow> [])"

lemma snd_guarded [simp]: "snd (guarded ds now hs b st) = snd (is_authenticated ds now hs st)"
  by (simp add: guarded_def split: prod.split bool.split)

lemma snd_auth_check [simp]:
  "snd (api_auth_check ds now hs st) = snd (is_authenticated ds now hs st)"
  by (simp add: api_auth_check_def split: prod.split)

lemma snd_guarded_reply [simp]: "snd (guarded_reply f p) = snd p"
  by (simp add: guarded_reply_def)

lemma handle_dashboard_history:
  "snd (handle_dashboard L A env ds sv f req st)
     = foldl (dash_step (de_ct_eq env) ds) st (history_entry L A env (clock (sv_heap sv)) req)"
proof (cases "ax_pick A create_router (rq_method req) (uri_path L (rq_uri req))")
  case (Inr p)
  then obtain ep cap where p: "ax_pick A create_router (rq_method req) (uri_path L (rq_uri req))
      = Inr (ep, cap)" by (cases p) auto
  then show ?thesis
    by (cases ep) (simp_all add: handle_dashboard_def history_entry_def api_status_def
        api_clients_def api_metrics_def split: sum.split)
qed (simp add: handle_dashboard_def history_entry_def)

lemma history_entry_time:
  assumes "e \<in> set (history_entry L A env now req)"
  shows "event_time e = now"
proof (cases "ax_pick A create_router (rq_method req) (uri_path L (rq_uri req))")
  case (Inr p)
  then show ?thesis
    using assms by (cases p; cases "fst p") (auto simp: history_entry_def split: sum.splits)
qed (use assms in \<open>simp add: history_entry_def\<close>)

lemma history_entry_sorted: "sorted (map event_time (history_entry L A env now req))"
  by (auto simp: history_entry_def split: sum.split prod.split endpoint.split)

text \<open>The reply of a guarded endpoint.\<close>

lemma guarded_reply_guarded:
  "fst (guarded_reply F (guarded ds now hs b st)) =
     (if fst (is_authenticated ds now hs st) then F b else auth_required)"
  by (auto simp: guarded_reply_def guarded_def split: prod.split bool.split)

end
