(* ===== verification/Site.thy ===== *)
theory Site
  imports Dashboard_Http Server_Safety
begin

text \<open>
  The public side as a whole: the server of \<open>Sessions\<close> and the dashboard share the registry,
  the counters and the clock, and \<open>serve_http\<close> sends each request to one of them. A step of the
  site is a step of the server or a request served by the dashboard. The history of what browsers
  did to the login sessions is recorded beside the state; no step reads it.
\<close>

section \<open>State and steps\<close>

record ('u, 'h, 'r) site =
  st_sys :: "('u, 'h, 'r) sys"
  st_store :: session_store
  st_history :: "dash_event list"

abbreviation site_clock :: "('u, 'h, 'r) site \<Rightarrow> instant" where
  "site_clock s \<equiv> clock (heap_of (st_sys s))"

definition session_ttl :: "server_config \<Rightarrow> u64" where
  "session_ttl cfg = da_session_ttl_secs (dashboard_auth cfg)"

text \<open>\<open>Server::run\<close>, with the dashboard's own state.\<close>

definition site_run :: "server_config \<Rightarrow> instant \<Rightarrow> fs \<Rightarrow> (run_error, ('u, 'h, 'r) site) res" where
  "site_run cfg now f =
     bind_res (server_run cfg now f)
       (\<lambda>s. Inr \<lparr>st_sys = s, st_store = session_store_new (session_ttl cfg), st_history = []\<rparr>)"

definition dashboard_turn :: "('u, 'h) http_lib \<Rightarrow> ('u, 'h) axum_lib \<Rightarrow> dash_env \<Rightarrow> server_config
    \<Rightarrow> ('u, 'h) http_request \<Rightarrow> ('u, 'h, 'r) site \<Rightarrow> dash_reply \<times> ('u, 'h, 'r) site" where
  "dashboard_turn L A env cfg req s =
     (case handle_dashboard L A env (dashboard_state_of cfg) (state_of (st_sys s))
             (sy_fs (st_sys s)) req (st_store s) of
        (r, st) \<Rightarrow> (r, s\<lparr>st_store := st,
                        st_history := st_history s @ history_entry L A env (site_clock s) req\<rparr>))"

inductive site_step :: "server_config \<Rightarrow> ('u, 'h) http_lib \<Rightarrow> ('u, 'h) axum_lib
    \<Rightarrow> (bytes \<Rightarrow> bytes \<Rightarrow> bool) \<Rightarrow> ('u, 'h, 'r) site \<Rightarrow> ('u, 'h, 'r) site \<Rightarrow> bool"
  for cfg L A ct_eq where
  server: "server_step cfg L (st_sys s) s' \<Longrightarrow> site_step cfg L A ct_eq s (s\<lparr>st_sys := s'\<rparr>)"
| dashboard: "dispatch (domain cfg) (header_str L (rq_headers req) ''host'') = ToDashboard
     \<Longrightarrow> de_ct_eq env = ct_eq
     \<Longrightarrow> site_step cfg L A ct_eq s (snd (dashboard_turn L A env cfg req s))"

inductive site_reachable :: "server_config \<Rightarrow> ('u, 'h) http_lib \<Rightarrow> ('u, 'h) axum_lib
    \<Rightarrow> (bytes \<Rightarrow> bytes \<Rightarrow> bool) \<Rightarrow> ('u, 'h, 'r) site \<Rightarrow> bool" for cfg L A ct_eq where
  start: "site_run cfg now f = Inr s \<Longrightarrow> site_reachable cfg L A ct_eq s"
| step: "site_reachable cfg L A ct_eq s \<Longrightarrow> site_step cfg L A ct_eq s s'
     \<Longrightarrow> site_reachable cfg L A ct_eq s'"

inductive_cases site_stepE: "site_step cfg L A ct_eq s s'"

lemma dashboard_turn_simps:
  "st_sys (snd (dashboard_turn L A env cfg req s)) = st_sys s"
  "st_history (snd (dashboard_turn L A env cfg req s))
     = st_history s @ history_entry L A env (site_clock s) req"
  "st_store (snd (dashboard_turn L A env cfg req s)) = snd (handle_dashboard L A env
     (dashboard_state_of cfg) (state_of (st_sys s)) (sy_fs (st_sys s)) req (st_store s))"
  "fst (dashboard_turn L A env cfg req s) = fst (handle_dashboard L A env
     (dashboard_state_of cfg) (state_of (st_sys s)) (sy_fs (st_sys s)) req (st_store s))"
  by (simp_all add: dashboard_turn_def split: prod.split)

text \<open>The dashboard is invisible to the server.\<close>

lemma site_run_Inr:
  "site_run cfg now f = Inr s \<longleftrightarrow> (\<exists>s0. server_run cfg now f = Inr s0
     \<and> s = \<lparr>st_sys = s0, st_store = session_store_new (session_ttl cfg), st_history = []\<rparr>)"
  by (auto simp: site_run_def bind_res_eq_Inr)

lemma site_server: "site_reachable cfg L A ct_eq s \<Longrightarrow> reachable cfg L (st_sys s)"
proof (induction rule: site_reachable.induct)
  case (start now f s)
  then show ?case by (auto simp: site_run_Inr intro: reachable.start)
next
  case (step s s')
  from step.hyps(2) step.IH show ?case
    by (auto elim!: site_stepE simp: dashboard_turn_simps intro: reachable.step)
qed

section \<open>The history explains the login sessions\<close>

lemma clock_step:
  assumes "server_step cfg L s s'"
  shows "clock (heap_of s) \<le> clock (heap_of s')"
  using assms
proof cases
  case (session i ev)
  from session(2) show ?thesis
    by (cases rule: conn_stepE)
       (auto simp: start_session_def enter_session_def leave_session_def register_alloc_def
          register_insert_def unregister_def Let_def spawn_driver_def count_failed_auth_def
          split: prod.split option.split)
next
  case (driver h ev)
  then show ?thesis
    by (auto simp: driver_turn_def Let_def split: if_splits prod.splits option.splits)
next
  case (request pev p')
  then show ?thesis using same_sessions_step [OF request(2)] by (simp add: same_sessions_def)
qed (auto simp: count_connection_def)

definition history_inv :: "server_config \<Rightarrow> (bytes \<Rightarrow> bytes \<Rightarrow> bool) \<Rightarrow> ('u, 'h, 'r) site \<Rightarrow> bool" where
  "history_inv cfg ct_eq s \<longleftrightarrow>
     st_store s = dash_run ct_eq (dashboard_state_of cfg) (session_ttl cfg) (st_history s)
     \<and> sorted (map event_time (st_history s))
     \<and> (\<forall>e \<in> set (st_history s). event_time e \<le> site_clock s)"

lemma history_inv_step:
  assumes "site_step cfg L A ct_eq s s'" and inv: "history_inv cfg ct_eq s"
  shows "history_inv cfg ct_eq s'"
  using assms(1)
proof cases
  case (server s2)
  then show ?thesis
    using inv clock_step [of cfg L "st_sys s" s2] by (fastforce simp: history_inv_def)
next
  case (dashboard req env)
  let ?new = "history_entry L A env (site_clock s) req"
  have "st_store s' = foldl (dash_step ct_eq (dashboard_state_of cfg)) (st_store s) ?new"
    using dashboard by (simp add: dashboard_turn_simps handle_dashboard_history)
  moreover have "sorted (map event_time (st_history s @ ?new))"
    using inv history_entry_sorted history_entry_time
    by (fastforce simp: history_inv_def sorted_append)
  moreover have "\<forall>e \<in> set (st_history s @ ?new). event_time e \<le> site_clock s"
    using inv history_entry_time by (fastforce simp: history_inv_def)
  ultimately show ?thesis
    using dashboard inv by (simp add: history_inv_def dashboard_turn_simps dash_run_def)
qed

lemma history_inv_reachable: "site_reachable cfg L A ct_eq s \<Longrightarrow> history_inv cfg ct_eq s"
proof (induction rule: site_reachable.induct)
  case (start now f s)
  then show ?case by (auto simp: site_run_Inr history_inv_def dash_run_def)
qed (rule history_inv_step)

text \<open>Who is logged in, in terms of the history.\<close>

abbreviation site_logged_in :: "server_config \<Rightarrow> ('u, 'h) http_lib \<Rightarrow> ('u, 'h, 'r) site
    \<Rightarrow> ('u, 'h) http_request \<Rightarrow> bool" where
  "site_logged_in cfg L s req \<equiv> logged_in (da_token (dashboard_auth cfg)) (unat (session_ttl cfg))
     (rev (st_history s)) (site_clock s) (dash_headers L req)"

lemma site_authenticated:
  assumes "site_reachable cfg L A ct_eq s" and "dashboard_auth_enabled cfg"
    and "\<And>a b. length a = length b \<Longrightarrow> ct_eq a b \<longleftrightarrow> a = b"
  shows "fst (is_authenticated (dashboard_state_of cfg) (site_clock s) (dash_headers L req) (st_store s))
    \<longleftrightarrow> site_logged_in cfg L s req"
proof (rule authenticated_agrees(1))
  have "st_store s = dash_run ct_eq (dashboard_state_of cfg) (session_ttl cfg) (st_history s)"
    "sorted (map event_time (st_history s))" "\<forall>e \<in> set (st_history s). event_time e \<le> site_clock s"
    using history_inv_reachable [OF assms(1)] by (auto simp: history_inv_def)
  then show "store_agrees (da_token (dashboard_auth cfg)) (session_ttl cfg) (rev (st_history s))
      (site_clock s) (st_store s)"
    using run_agrees [OF _ _ _ _ _ assms(3), where T = "site_clock s" and es = "st_history s"
        and ds = "dashboard_state_of cfg"] assms(2)
    by (simp add: dashboard_state_of_def dashboard_auth_enabled_def)
qed (use assms(2) in \<open>simp add: dashboard_state_of_def\<close>)


section \<open>Properties\<close>

text \<open>What the guarded endpoints have to tell, and the replies that tell it.\<close>

fun guarded_content :: "dash_env \<Rightarrow> server_config \<Rightarrow> server_state \<Rightarrow> endpoint \<Rightarrow> dash_reply option" where
  "guarded_content env cfg sv ApiStatus = Some (StatusReply
     (status_body (de_version env) (dashboard_state_of cfg) (registry_count (sv_registry sv))))"
| "guarded_content env cfg sv ApiClients = Some (ClientsReply (registry_list (sv_heap sv) (sv_registry sv)))"
| "guarded_content env cfg sv ApiMetrics = Some (MetricsReply (snapshot (clock (sv_heap sv)) (sv_metrics sv)))"
| "guarded_content env cfg sv _ = None"

fun tells_secrets :: "dash_reply \<Rightarrow> bool" where
  "tells_secrets (StatusReply b) = True"
| "tells_secrets (ClientsReply cs) = True"
| "tells_secrets (MetricsReply m) = True"
| "tells_secrets _ = False"

lemma handle_dashboard_guarded:
  assumes "ax_pick A create_router (rq_method req) (uri_path L (rq_uri req)) = Inr (ep, cap)"
    and "guarded_content env cfg sv ep = Some b"
  shows "fst (handle_dashboard L A env (dashboard_state_of cfg) sv f req st) =
    (if fst (is_authenticated (dashboard_state_of cfg) (clock (sv_heap sv)) (dash_headers L req) st)
     then b else auth_required)"
  using assms by (cases ep) (auto simp: handle_dashboard_def api_status_def api_clients_def
      api_metrics_def guarded_reply_guarded)

lemma handle_dashboard_secrets:
  assumes "tells_secrets (fst (handle_dashboard L A env ds sv f req st))"
  shows "fst (is_authenticated ds (clock (sv_heap sv)) (dash_headers L req) st)"
proof (cases "ax_pick A create_router (rq_method req) (uri_path L (rq_uri req))")
  case (Inr p)
  then show ?thesis
    using assms by (cases p; cases "fst p")
      (auto simp: handle_dashboard_def api_status_def api_clients_def api_metrics_def
         guarded_reply_guarded auth_required_def dashboard_ui_def dashboard_css_def dashboard_js_def
         split: sum.splits if_splits prod.splits)
qed (use assms in \<open>simp add: handle_dashboard_def\<close>)

text \<open>C5: On the running site, the token for clients, the list of clients and the counters are for
  those who logged in. Whatever happened before, a guarded endpoint answers with the present state of
  the server if the visitor's cookie names a session that a login with the dashboard token was given,
  within its lifetime and not logged out, and with a refusal otherwise; and no reply of the
  dashboard to anyone else, by any route, tells these things.\<close>

theorem secrets_need_login:
  assumes "site_reachable cfg L A ct_eq s" and "dashboard_auth_enabled cfg"
    and "\<And>a b. length a = length b \<Longrightarrow> ct_eq a b \<longleftrightarrow> a = b"
  shows "(ax_pick A create_router (rq_method req) (uri_path L (rq_uri req)) = Inr (ep, cap)
      \<and> guarded_content env cfg (state_of (st_sys s)) ep = Some b
      \<longrightarrow> fst (dashboard_turn L A env cfg req s)
          = (if site_logged_in cfg L s req then b else auth_required))
    \<and> (tells_secrets (fst (dashboard_turn L A env cfg req s)) \<longrightarrow> site_logged_in cfg L s req)"
  using site_authenticated [OF assms, of req] handle_dashboard_guarded handle_dashboard_secrets
  unfolding dashboard_turn_simps by metis

lemma client_token_unread:
  "is_authenticated (ds\<lparr>ds_client_token := t\<rparr>) = is_authenticated ds"
  "api_login ct_eq (ds\<lparr>ds_client_token := t\<rparr>) = api_login ct_eq ds"
  "api_auth_check (ds\<lparr>ds_client_token := t\<rparr>) = api_auth_check ds"
  "serve_install_script (ds\<lparr>ds_client_token := t\<rparr>) = serve_install_script ds"
  "serve_download (ds\<lparr>ds_client_token := t\<rparr>) = serve_download ds"
proof -
  show auth: "is_authenticated (ds\<lparr>ds_client_token := t\<rparr>) = is_authenticated ds"
    by (simp add: fun_eq_iff is_authenticated_def)
  have tls: "is_tls_enabled (ds\<lparr>ds_client_token := t\<rparr>) = is_tls_enabled ds"
    by (simp add: fun_eq_iff is_tls_enabled_def)
  show "api_login ct_eq (ds\<lparr>ds_client_token := t\<rparr>) = api_login ct_eq ds"
    unfolding fun_eq_iff api_login_def auth tls
    by (auto simp: Let_def split: prod.split bool.split)
  show "api_auth_check (ds\<lparr>ds_client_token := t\<rparr>) = api_auth_check ds"
    unfolding fun_eq_iff api_auth_check_def auth tls by simp
qed (simp_all add: fun_eq_iff serve_install_script_def serve_download_def)

lemma guarded_refused:
  "\<not> fst (is_authenticated ds now hs st) \<Longrightarrow>
     guarded_reply F (guarded ds now hs b st) = (auth_required, snd (is_authenticated ds now hs st))"
  by (auto simp: guarded_reply_def guarded_def split: prod.split bool.split)

text \<open>C9: Someone who is not logged in learns nothing about the clients, the counters or the token
  for clients: two servers that differ only in these give the same answer to the same request, on
  every route of the dashboard, the login included.\<close>

theorem outsiders_learn_nothing:
  assumes "\<not> fst (is_authenticated ds (clock (sv_heap sv)) (dash_headers L req) st)"
    and "clock (sv_heap sv') = clock (sv_heap sv)"
  shows "handle_dashboard L A env (ds\<lparr>ds_client_token := other\<rparr>) sv' f req st
    = handle_dashboard L A env ds sv f req st"
proof (cases "ax_pick A create_router (rq_method req) (uri_path L (rq_uri req))")
  case (Inr p)
  have "\<not> fst (is_authenticated (ds\<lparr>ds_client_token := other\<rparr>) (clock (sv_heap sv)) (dash_headers L req) st)"
    using assms(1) by (simp add: client_token_unread)
  then show ?thesis
    using Inr guarded_refused [OF assms(1)] by (cases p; cases "fst p")
      (simp_all add: handle_dashboard_def assms(2) api_status_def api_clients_def api_metrics_def
         client_token_unread guarded_refused split: sum.split)
qed (simp add: handle_dashboard_def)

text \<open>C10: The list of clients tells the truth. A logged-in visitor of \<open>/api/clients\<close> gets each
  registered client exactly once and nobody else; each one listed is served by a session that showed
  a valid token and was told it was accepted, and for each one listed as healthy the driver of that
  session is running.\<close>

theorem client_list_true:
  assumes "site_reachable cfg L A ct_eq s" and "sessions_made (st_sys s) < 2 ^ 64"
    and "dashboard_auth_enabled cfg" and "\<And>a b. length a = length b \<Longrightarrow> ct_eq a b \<longleftrightarrow> a = b"
    and "ax_pick A create_router (rq_method req) (uri_path L (rq_uri req)) = Inr (ApiClients, cap)"
    and "site_logged_in cfg L s req"
  shows "\<exists>cs. fst (dashboard_turn L A env cfg req s) = ClientsReply cs
    \<and> distinct (map ci_client_id cs)
    \<and> set (map ci_client_id cs) = dom (registry_get (registry_of (st_sys s)))
    \<and> (\<forall>c \<in> set cs. \<exists>i < length (sy_conns (st_sys s)). \<exists>a e. sy_conns (st_sys s) ! i = Serving a e
         \<and> ar_client_id a = ci_client_id c \<and> validate_token cfg (ar_token a)
         \<and> (a, accept_reply cfg a) \<in> set (sy_sent (st_sys s))
         \<and> (ci_healthy c \<longrightarrow> dr_running (snd (sy_drivers (st_sys s)
               ! ce_handle (clients_heap (heap_of (st_sys s)) ! e)))))"
proof -
  let ?s = "st_sys s"
  let ?cs = "registry_list (heap_of ?s) (registry_of ?s)"
  note reach = site_server [OF assms(1)]
  note inv = session_inv_reachable [OF reach assms(2)]
  note wf = session_invD(1) [OF inv]
  have "\<exists>i < length (sy_conns ?s). \<exists>a e. sy_conns ?s ! i = Serving a e
      \<and> ar_client_id a = ci_client_id c \<and> validate_token cfg (ar_token a)
      \<and> (a, accept_reply cfg a) \<in> set (sy_sent ?s)
      \<and> (ci_healthy c \<longrightarrow> dr_running (snd (sy_drivers ?s ! ce_handle (clients_heap (heap_of ?s) ! e))))"
    if listed: "c \<in> set ?cs" for c
  proof -
    obtain k e where c: "c = client_info_of (heap_of ?s) e" "(k, e) \<in> set (clients (registry_of ?s))"
      using listed by (auto simp: registry_list_def)
    then have k: "registry_get (registry_of ?s) k = Some e"
      using wf dm.set_entries [of "clients (registry_of ?s)"] by (auto simp: registry_wf_def registry_get_def)
    obtain i a where i: "i < length (sy_conns ?s)" "sy_conns ?s ! i = Serving a e"
      using session_invD(7) [OF inv k] by blast
    then have "owner_ok cfg ?s a e" using session_invD(5) [OF inv i(1), of a e] by simp
    moreover have "ci_healthy c \<longrightarrow> dr_running (snd (sy_drivers ?s
        ! ce_handle (clients_heap (heap_of ?s) ! e)))"
      using alive_session_runs [OF reach assms(2) k] c(1) by (simp add: client_info_of_def Let_def)
    ultimately show ?thesis
      using i c(1) by (auto simp: owner_ok_def client_info_of_def Let_def)
  qed
  moreover have "fst (dashboard_turn L A env cfg req s) = ClientsReply ?cs"
    using handle_dashboard_guarded [OF assms(5), of env cfg "state_of ?s"]
      site_authenticated [OF assms(1,3,4), of req] assms(6) by (simp add: dashboard_turn_simps)
  ultimately show ?thesis
    using list_shows_registry [OF wf] by blast
qed


text \<open>The proxy is less discreet than the dashboard: a request for a host that is no client's, from
  anyone, is answered with the names of all clients.\<close>

lemma strangers_see_client_names:
  assumes "extract_routing L req domn = None" and "clients (sv_registry sv) \<noteq> []"
  shows "fst (proxy_begin L domn req sv :: ('u, 'h, 'r) flight \<times> server_state)
    = Answered (Local (error_response 404 (''Invalid subdomain. Available tunnels: ''
        @ join_with '', '' (map (\<lambda>c. ci_client_id c @ ''.'' @ domn)
            (registry_list (sv_heap sv) (sv_registry sv))))))"
  using assms by (simp add: proxy_begin_def count_request_def no_route_response_def registry_list_def)

section \<open>A site with one client and one visitor\<close>

lemma idle_site_reachable:
  "reachable cfg L s \<Longrightarrow> site_reachable cfg L A ct_eq
     \<lparr>st_sys = s, st_store = session_store_new (session_ttl cfg), st_history = []\<rparr>"
proof (induction rule: reachable.induct)
  case (start now f s)
  then show ?case by (auto simp: site_run_Inr intro: site_reachable.start)
next
  case (step s s')
  from site_reachable.step [OF step.IH site_step.server, of s'] step.hyps(2) show ?case by simp
qed

definition demo_axum :: "('u, 'h) axum_lib" where
  "demo_axum = \<lparr>ax_pick = (\<lambda>tbl m p. case find (\<lambda>(q, _, _). q = p) tbl of None \<Rightarrow> Inl 404
       | Some (_, _, ep) \<Rightarrow> Inr (ep, [])), ax_login_json = (\<lambda>_. Inr ''pw'')\<rparr>"

abbreviation demo_dash_env :: dash_env where
  "demo_dash_env \<equiv> \<lparr>de_ct_eq = (=), de_version = ''1'', de_new_id = ''id1''\<rparr>"

abbreviation demo_dash_request :: "string \<Rightarrow> string option
    \<Rightarrow> (string, string \<Rightarrow> string option) http_request" where
  "demo_dash_request p cookie \<equiv> \<lparr>rq_method = ''GET'', rq_uri = p,
     rq_headers = [''host'' \<mapsto> ''t.io''](''cookie'' := cookie), rq_body = []\<rparr>"

definition demo_idle_site :: "(string, string \<Rightarrow> string option, nat) site" where
  "demo_idle_site = \<lparr>st_sys = demo_registered, st_store = session_store_new (session_ttl demo_cfg),
     st_history = []\<rparr>"

definition demo_login_site :: "(string, string \<Rightarrow> string option, nat) site" where
  "demo_login_site = snd (dashboard_turn demo_lib demo_axum demo_dash_env demo_cfg
     (demo_dash_request ''/api/login'' None) demo_idle_site)"

lemma demo_idle_reachable: "site_reachable demo_cfg demo_lib demo_axum (=) demo_idle_site"
  unfolding demo_idle_site_def by (rule idle_site_reachable [OF demo_registered_reachable])

lemma demo_login_reachable: "site_reachable demo_cfg demo_lib demo_axum (=) demo_login_site"
  unfolding demo_login_site_def
  by (rule site_reachable.step [OF demo_idle_reachable site_step.dashboard])
     (simp_all add: dispatch_def host_no_port_takeWhile demo_lib_def)

lemma demo_pick:
  "ax_pick demo_axum create_router m ''/api/login'' = Inr (ApiLogin, [])"
  "ax_pick demo_axum create_router m ''/api/clients'' = Inr (ApiClients, [])"
  "ax_pick demo_axum create_router m ''/api/status'' = Inr (ApiStatus, [])"
  by (simp_all add: demo_axum_def create_router_def)

lemma demo_path: "CHR ''?'' \<notin> set p \<Longrightarrow> uri_path demo_lib p = p"
  by (auto simp: demo_lib_def takeWhile_eq_all_conv)

lemma demo_login_facts:
  "st_sys demo_login_site = demo_registered"
  "st_history demo_login_site = [Login (site_clock demo_idle_site) ''id1'' ''pw''
     \<lparr>rh_cookie = None, rh_forwarded_proto = None\<rparr>]"
  by (simp_all add: demo_login_site_def dashboard_turn_simps demo_idle_site_def history_entry_def
      demo_path demo_pick dash_headers_def demo_header demo_axum_def [THEN arg_cong [of _ _ ax_login_json]])

lemma demo_enabled: "dashboard_auth_enabled demo_cfg"
  by (simp add: dashboard_auth_enabled_def)

lemma demo_visitor_logged_in:
  "site_logged_in demo_cfg demo_lib demo_login_site
     (demo_dash_request ''/api/clients'' (Some (COOKIE_NAME @ ''='' @ ''id1'')))"
proof -
  have "extract_session_id (session_header ''id1'') = Some ''id1''"
    by (rule extract_session_header) (simp add: plain_id_def is_ascii_alphanumeric_def)
  moreover have "extract_session_id \<lparr>rh_cookie = None, rh_forwarded_proto = None\<rparr> = None"
    by (simp add: extract_session_id_def)
  ultimately show ?thesis
    by (simp add: logged_in_def demo_login_facts dash_headers_def demo_header demo_idle_site_def
        session_ttl_def as_secs_def elapsed_def nanos_per_sec_def)
qed

theorem secrets_need_login_witness:
  "fst (dashboard_turn demo_lib demo_axum demo_dash_env demo_cfg
      (demo_dash_request ''/api/status'' None) demo_login_site) = auth_required"
proof -
  have "\<not> site_logged_in demo_cfg demo_lib demo_login_site (demo_dash_request ''/api/status'' None)"
    by (simp add: logged_in_def dash_headers_def demo_header extract_session_id_def)
  then show ?thesis
    using secrets_need_login [OF demo_login_reachable demo_enabled,
        of "demo_dash_request ''/api/status'' None" ApiStatus "[]" demo_dash_env]
    by (simp add: demo_path demo_pick)
qed

theorem outsiders_learn_nothing_witness:
  "fst (handle_dashboard demo_lib demo_axum demo_dash_env (demo_dashboard\<lparr>ds_client_token := ''y''\<rparr>)
      (state_of demo_registered) demo_fs (demo_dash_request ''/api/status'' None) (session_store_new 60))
   = auth_required"
proof -
  have out: "\<not> fst (is_authenticated demo_dashboard (clock (heap_of demo_registered))
      (dash_headers demo_lib (demo_dash_request ''/api/status'' None)) (session_store_new 60))"
    by (simp add: is_authenticated_def dash_headers_def demo_header extract_session_id_def)
  have "fst (handle_dashboard demo_lib demo_axum demo_dash_env demo_dashboard
      (state_of demo_registered) demo_fs (demo_dash_request ''/api/status'' None) (session_store_new 60))
    = auth_required"
    by (simp add: handle_dashboard_def demo_path demo_pick api_status_def guarded_reply_def
        guarded_def is_authenticated_def dash_headers_def demo_header extract_session_id_def)
  then show ?thesis unfolding outsiders_learn_nothing [OF out refl] .
qed

theorem client_list_true_witness:
  "\<exists>cs. fst (dashboard_turn demo_lib demo_axum demo_dash_env demo_cfg
      (demo_dash_request ''/api/clients'' (Some (COOKIE_NAME @ ''='' @ ''id1''))) demo_login_site)
      = ClientsReply cs \<and> ''app'' \<in> set (map ci_client_id cs)"
  using client_list_true [OF demo_login_reachable _ demo_enabled _ _ demo_visitor_logged_in,
      of "[]" demo_dash_env]
  by (auto simp: demo_login_facts demo_registered_facts demo_path demo_pick)

end
