(* ===== verification/Client_Config.thy ===== *)
theory Client_Config
  imports Server_Config
begin

text \<open>
  The client's configuration, \<open>zo-tunnel-client/src/config.rs\<close>: where it is, reading and
  writing it, the token as it is shown, tunnel names and local addresses. \<open>serde_yaml\<close> and
  the random bytes are parameters; the log of \<open>client_io\<close> records writes and changes of
  permissions in order.
\<close>

section \<open>Data\<close>

record client_tls_config =
  ct_enabled :: bool
  ct_server_name :: string
  ct_skip_verify :: bool

record client_config =
  cc_server :: string
  cc_token :: string
  cc_tls :: client_tls_config

record client_yaml =
  cy_from_str :: "string \<Rightarrow> client_config option"
  cy_to_string :: "client_config \<Rightarrow> string option"

datatype config_error =
  HomeNotSet
| NoConfig string
| ConfigIo io_error
| ConfigYaml

datatype io_call = Chmod string nat | Wrote string string

record client_io =
  ci_fs :: fs
  ci_log :: "io_call list"

section \<open>Reading and writing\<close>

definition client_config_dir :: "environment \<Rightarrow> (config_error, string) res" where
  "client_config_dir e =
     (case env_var e ''HOME'' of
        None \<Rightarrow> Inl HomeNotSet
      | Some home \<Rightarrow> Inr (path_join home ''.zotunnel''))"

definition client_config_path :: "environment \<Rightarrow> (config_error, string) res" where
  "client_config_path e =
     bind_res (client_config_dir e) (\<lambda>dir. Inr (path_join dir ''config.yaml''))"

definition load_client_config ::
  "client_yaml \<Rightarrow> environment \<Rightarrow> fs \<Rightarrow> (config_error, client_config) res" where
  "load_client_config y e s =
     bind_res (client_config_path e) (\<lambda>path.
       if \<not> fs_exists s path then Inl (NoConfig path)
       else bind_res (map_err ConfigIo (fs_read_to_string s path)) (\<lambda>content.
         or_error ConfigYaml (cy_from_str y content)))"

definition make_dirs :: "string \<Rightarrow> 'z client_io_scheme
    \<Rightarrow> (config_error, unit) res \<times> 'z client_io_scheme" where
  "make_dirs d w =
     (case fs_create_dir_all d (ci_fs w) of (r, s) \<Rightarrow> (map_err ConfigIo r, w\<lparr>ci_fs := s\<rparr>))"

definition write_file :: "string \<Rightarrow> string \<Rightarrow> 'z client_io_scheme
    \<Rightarrow> (config_error, unit) res \<times> 'z client_io_scheme" where
  "write_file p c w =
     (case fs_write p c (ci_fs w) of
        (Inl e, s) \<Rightarrow> (Inl (ConfigIo e), w\<lparr>ci_fs := s\<rparr>)
      | (Inr _, s) \<Rightarrow> (Inr (), w\<lparr>ci_fs := s, ci_log := ci_log w @ [Wrote p c]\<rparr>))"

definition set_permissions :: "string \<Rightarrow> nat \<Rightarrow> 'z client_io_scheme
    \<Rightarrow> (config_error, unit) res \<times> 'z client_io_scheme" where
  "set_permissions p m w =
     (if \<not> fs_exists (ci_fs w) p then (Inl (ConfigIo NotFound), w)
      else if p \<in> set (fs_denied (ci_fs w)) then (Inl (ConfigIo PermissionDenied), w)
      else (Inr (), w\<lparr>ci_log := ci_log w @ [Chmod p m]\<rparr>))"

text \<open>The modes are \<open>0o700\<close> and \<open>0o600\<close>.\<close>

definition save_client_config :: "client_yaml \<Rightarrow> environment \<Rightarrow> client_config
    \<Rightarrow> 'z client_io_scheme \<Rightarrow> (config_error, unit) res \<times> 'z client_io_scheme" where
  "save_client_config y e cfg w =
     try_then (client_config_dir e, w) (\<lambda>dir w.
     try_then (make_dirs dir w) (\<lambda>_ w.
     try_then (set_permissions dir 448 w) (\<lambda>_ w.
     try_then (client_config_path e, w) (\<lambda>path w.
     try_then (or_error ConfigYaml (cy_to_string y cfg), w) (\<lambda>text w.
     try_then (write_file path text w) (\<lambda>_ w.
     set_permissions path 384 w))))))"

section \<open>Tokens, names, addresses\<close>

text \<open>\<open>None\<close> is the panic of a slice that ends inside a character.\<close>

definition masked_token :: "client_config \<Rightarrow> string option" where
  "masked_token cfg =
     (if length (cc_token cfg) \<le> 4 then Some ''****''
      else if \<not> is_char_boundary (cc_token cfg) 4 then None
      else Some (take 4 (cc_token cfg) @ ''****''))"

definition generate_name :: "bytes \<Rightarrow> string" where
  "generate_name buf = ''tunnel-'' @ concat (map hex02 buf)"

definition normalize_local_addr :: "string \<Rightarrow> string" where
  "normalize_local_addr addr = (if CHR '':'' \<in> set addr then addr else ''localhost:'' @ addr)"

section \<open>Properties\<close>

lemma io_log:
  "make_dirs d w = (r, w') \<Longrightarrow> ci_log w' = ci_log w"
  "write_file p c w = (r, w') \<Longrightarrow> ci_log w' = ci_log w @ (if r = Inr () then [Wrote p c] else [])"
  "set_permissions p m w = (r, w') \<Longrightarrow>
     ci_log w' = ci_log w @ (if r = Inr () then [Chmod p m] else [])"
  by (auto simp: make_dirs_def write_file_def set_permissions_def
      split: prod.splits sum.splits if_splits)

text \<open>The token is never written to a directory that others can read: saving the
  configuration does these three things in this order, and when one fails, none of the later ones:
  the directory is made private (\<open>0o700\<close>), the file is written, the file is made private
  (\<open>0o600\<close>). Saving reports success exactly if all three were done.\<close>

theorem config_saved_privately:
  assumes "client_config_dir e = Inr dir" and "cy_to_string y cfg = Some text"
    and "save_client_config y e cfg w = (r, w')"
  shows "\<exists>n \<le> 3. ci_log w' = ci_log w @ take n [Chmod dir 448,
        Wrote (path_join dir ''config.yaml'') text, Chmod (path_join dir ''config.yaml'') 384]
    \<and> (r = Inr () \<longleftrightarrow> n = 3)"
proof -
  have "r \<noteq> Inr () \<and> ci_log w' = ci_log w
    \<or> r \<noteq> Inr () \<and> ci_log w' = ci_log w @ [Chmod dir 448]
    \<or> r \<noteq> Inr () \<and> ci_log w' = ci_log w @ [Chmod dir 448, Wrote (path_join dir ''config.yaml'') text]
    \<or> r = Inr () \<and> ci_log w' = ci_log w @ [Chmod dir 448,
        Wrote (path_join dir ''config.yaml'') text, Chmod (path_join dir ''config.yaml'') 384]"
    using assms(3) unfolding save_client_config_def assms(1,2) client_config_path_def try_then_eq
    by (auto dest!: io_log split: if_splits)
  then show ?thesis
    by (elim disjE) (force intro: exI [of _ 0], force intro: exI [of _ 1],
      force intro: exI [of _ 2], force intro: exI [of _ 3])
qed

abbreviation demo_env :: environment where
  "demo_env \<equiv> \<lparr>env_vars = [(''HOME'', ''/h'')], euid = 1000\<rparr>"

abbreviation demo_client_config :: client_config where
  "demo_client_config \<equiv> \<lparr>cc_server = ''t.io:1'', cc_token = ''secret'',
     cc_tls = \<lparr>ct_enabled = False, ct_server_name = [], ct_skip_verify = False\<rparr>\<rparr>"

definition demo_yaml :: client_yaml where
  "demo_yaml = \<lparr>cy_from_str = (\<lambda>t. if t = ''x'' then Some demo_client_config else None),
     cy_to_string = (\<lambda>c. if c = demo_client_config then Some ''x'' else None)\<rparr>"

definition demo_io :: client_io where
  "demo_io = \<lparr>ci_fs = \<lparr>fs_files = [], fs_dirs = [''/h''], fs_denied = [], fs_writes = []\<rparr>, ci_log = []\<rparr>"

lemma demo_config_dir: "client_config_dir demo_env = Inr ''/h/.zotunnel''"
  by (simp add: client_config_dir_def env_var_def dm_get_def path_join_def starts_with_iff)

lemma demo_yaml_laws:
  "cy_to_string demo_yaml demo_client_config = Some ''x''" "cy_from_str demo_yaml ''x'' = Some demo_client_config"
  by (simp_all add: demo_yaml_def)

lemma demo_saved:
  obtains w' where "save_client_config demo_yaml demo_env demo_client_config demo_io = (Inr (), w')"
  by (simp add: save_client_config_def demo_config_dir client_config_path_def demo_yaml_def demo_io_def
      make_dirs_def fs_create_dir_all_def fs_is_dir_def fs_is_file_def dm_get_def set_permissions_def
      fs_exists_def write_file_def fs_write_def path_join_def starts_with_iff parent_dir_def dm_put_def
      or_error_def)

theorem config_saved_privately_witness:
  "\<exists>w' :: client_io. ci_log w' = [Chmod ''/h/.zotunnel'' 448, Wrote (path_join ''/h/.zotunnel'' ''config.yaml'') ''x'',
     Chmod (path_join ''/h/.zotunnel'' ''config.yaml'') 384]"
proof -
  obtain w' where w': "save_client_config demo_yaml demo_env demo_client_config demo_io = (Inr (), w')"
    by (rule demo_saved)
  have "ci_log demo_io = []" by (simp add: demo_io_def)
  with config_saved_privately [OF demo_config_dir demo_yaml_laws(1) w'] show ?thesis by auto
qed

lemma write_file_content:
  assumes "write_file p c w = (Inr (), w')" "fs_wf (ci_fs w)"
  shows "fs_read (ci_fs w') p = Inr c" "fs_exists (ci_fs w') p"
proof -
  have wr: "fs_write p c (ci_fs w) = (Inr (), ci_fs w')"
    using assms(1) by (auto simp: write_file_def split: prod.splits sum.splits)
  then have "fs_content (ci_fs w') p = Some c" using fsys.write_ok [OF assms(2)] by auto
  moreover have "\<not> fs_is_dir (ci_fs w') p"
    using wr by (auto simp: fs_write_def fs_is_dir_def split: if_splits dest!: sym [of _ "ci_fs w'"])
  ultimately show "fs_read (ci_fs w') p = Inr c" "fs_exists (ci_fs w') p"
    by (simp_all add: fs_read_def fs_exists_def fs_is_file_def)
qed

text \<open>What was saved is what is loaded again, as long as the YAML library reads back what it
  wrote.\<close>

theorem config_roundtrip:
  assumes "save_client_config y e cfg w = (Inr (), w')" and "fs_wf (ci_fs w)"
    and "cy_to_string y cfg = Some text" and "cy_from_str y text = Some cfg" and "is_str text"
  shows "load_client_config y e (ci_fs w') = Inr cfg"
proof -
  from assms(1) obtain dir path w1 w2 where dir: "client_config_path e = Inr path"
    and w1: "ci_fs w1 = ci_fs w \<or> (\<exists>d. ci_fs w1 = (ci_fs w)\<lparr>fs_dirs := d # fs_dirs (ci_fs w)\<rparr>)"
    and w2: "write_file path text w1 = (Inr (), w2)" "set_permissions path 384 w2 = (Inr (), w')"
    using assms(3)
    by (fastforce simp: save_client_config_def try_then_eq_Inr make_dirs_def set_permissions_def
        fs_create_dir_all_def split: prod.splits if_splits)
  have "fs_wf (ci_fs w1)" using w1 assms(2) by (auto simp: fs_wf_def)
  moreover have "ci_fs w' = ci_fs w2"
    using w2(2) by (auto simp: set_permissions_def split: if_splits)
  ultimately show ?thesis
    using dir write_file_content [OF w2(1)] assms(4,5)
    by (simp add: load_client_config_def fs_read_to_string_def)
qed

theorem config_roundtrip_witness:
  "\<exists>s. load_client_config demo_yaml demo_env s = Inr demo_client_config"
proof -
  obtain w' where w': "save_client_config demo_yaml demo_env demo_client_config demo_io = (Inr (), w')"
    by (rule demo_saved)
  have "fs_wf (ci_fs demo_io)" by (simp add: demo_io_def fs_wf_def dm_wf_def)
  moreover have "is_str ''x''" by (rule ascii_is_str) simp
  ultimately show ?thesis using config_roundtrip [OF w' _ demo_yaml_laws] by blast
qed

text \<open>Generated names: nothing in them needs escaping in a host, a rule or a file name.\<close>

lemma generate_name_token: "generate_name buf = ''tunnel-'' @ generate_token buf"
  by (simp add: generate_name_def generate_token_def)

lemma generate_name_inject [simp]: "generate_name a = generate_name b \<longleftrightarrow> a = b"
  by (simp add: generate_name_token generate_token_inject)

lemma generate_name_char:
  "c \<in> set (generate_name buf) \<Longrightarrow> is_ascii_alphanumeric c \<or> c = CHR ''-''"
proof -
  assume "c \<in> set (generate_name buf)"
  then consider "c \<in> set ''tunnel-''" | b where "c \<in> set (hex02 b)"
    by (auto simp: generate_name_def)
  then show ?thesis
  proof cases
    case 2
    then show ?thesis
      using hex02_lower_hex [of c b]
      by (auto simp: is_lower_hex_def is_ascii_digit_def is_ascii_alphanumeric_def Let_def)
  qed (auto simp: is_ascii_alphanumeric_def)
qed

lemma generate_name_not_reserved: "generate_name buf \<notin> set RESERVED_SUBDOMAINS"
  by (auto simp: generate_name_def RESERVED_SUBDOMAINS_def)

text \<open>Showing a token that is valid text can panic: the first four bytes of this one end in
  the middle of a character. A token in ASCII never panics, and shows four characters at most.\<close>

theorem masked_token_panics:
  "is_str (''abc'' @ [CHR 0xC3, CHR 0xA9])
   \<and> masked_token (demo_client_config\<lparr>cc_token := ''abc'' @ [CHR 0xC3, CHR 0xA9]\<rparr>) = None
   \<and> masked_token (demo_client_config\<lparr>cc_token := ''abcdef''\<rparr>) = Some ''abcd****''"
proof -
  have "is_str (''abc'' @ [CHR 0xC3, CHR 0xA9])"
    by (simp add: is_str_def str_bytes_def decode_utf8.simps next_char.simps(2) cont_def)
  then show ?thesis by (simp add: masked_token_def is_char_boundary_def cont_def)
qed

end
