(* ===== verification/Client_Session.thy ===== *)
theory Client_Session
  imports Client_Config Protocol
begin

text \<open>
  One session of the client, \<open>zo-tunnel-client/src/client.rs\<close>, and the loop of
  \<open>main.rs\<close> that starts one session after another. A session is a machine whose events are
  the outcomes of its awaits; the cancellation token may fire at any of them. The TLS handshake is
  one such outcome, and whether a text is a server name is a parameter (\<open>rustls\<close>).
\<close>

section \<open>Data\<close>

record client =
  cl_server_addr :: string
  cl_local_addr :: string
  cl_client_id :: string
  cl_token :: string
  cl_tls :: client_tls_config

datatype session_error =
  ConnectFailed
| InvalidServerName string
| TlsFailed
| WriteFailed proto_error
| ReadFailed proto_error
| AuthFailed string
| NotAnAuthRes

text \<open>The text of an error message is left out.\<close>

datatype tunnel_status =
  Stopped
| Connecting
| Connected string instant
| Failed session_error

section \<open>The pieces of a session\<close>

definition client_auth_req :: "string \<Rightarrow> client \<Rightarrow> auth_req" where
  "client_auth_req version c =
     \<lparr>ar_client_id = cl_client_id c, ar_token = cl_token c, ar_version = Some version\<rparr>"

definition resolve_server_name :: "(string \<Rightarrow> bool) \<Rightarrow> client \<Rightarrow> (session_error, string) res" where
  "resolve_server_name valid c =
     (let name = (if ct_server_name (cl_tls c) \<noteq> [] then ct_server_name (cl_tls c)
                  else case split_on CHR '':'' (cl_server_addr c) of
                         n # _ \<Rightarrow> n | [] \<Rightarrow> cl_server_addr c)
      in if valid name then Inr name else Inl (InvalidServerName name))"

text \<open>The prefix is \<open>OK\<close>, a space, an em dash (three bytes), a space.\<close>

definition client_ok_prefix :: string where
  "client_ok_prefix = ''OK '' @ [CHR 0xE2, CHR 0x80, CHR 0x94] @ '' ''"

definition connected_route :: "auth_res \<Rightarrow> string" where
  "connected_route rs =
     ''https://'' @
       (case strip_prefix client_ok_prefix (as_message rs) of
          Some host \<Rightarrow> host
        | None \<Rightarrow> (case as_assigned_route rs of Some r \<Rightarrow> r | None \<Rightarrow> ''-''))"

definition on_auth_reply :: "(proto_error, message) res \<Rightarrow> (session_error, string) res" where
  "on_auth_reply m =
     (case m of
        Inl e \<Rightarrow> Inl (ReadFailed e)
      | Inr (AuthRes rs) \<Rightarrow>
          if \<not> as_success rs then Inl (AuthFailed (as_message rs)) else Inr (connected_route rs)
      | Inr _ \<Rightarrow> Inl NotAnAuthRes)"

text \<open>The same socket settings as the server's: seconds before the first probe and between probes,
  and on Linux the number of probes. A failure to set them is only logged.\<close>

definition client_tcp_keepalive :: "bool \<Rightarrow> tcp_keepalive" where
  "client_tcp_keepalive linux =
     \<lparr>ka_time = HEARTBEAT_INTERVAL_SECS, ka_interval = 5,
      ka_retries = (if linux then Some 3 else None)\<rparr>"

text \<open>What becomes of a stream the server opens, given the bytes that arrive on it: its first byte
  decides. Without a byte within five seconds, and when the local service cannot be reached, the
  stream is dropped.\<close>

datatype stream_outcome = PongBack bytes | Forward bytes | Dropped

definition handle_tunnel_stream :: "bool \<Rightarrow> bytes \<Rightarrow> stream_outcome" where
  "handle_tunnel_stream local_ok rest = (if local_ok then Forward rest else Dropped)"

definition client_stream :: "bool \<Rightarrow> bytes \<Rightarrow> stream_outcome" where
  "client_stream local_ok arriving =
     (case arriving of
        [] \<Rightarrow> Dropped
      | marker # rest \<Rightarrow>
          if marker = STREAM_TYPE_HEARTBEAT then PongBack [STREAM_TYPE_HEARTBEAT]
          else handle_tunnel_stream local_ok rest)"

section \<open>The session\<close>

datatype client_stage =
  TcpConnecting
| TlsConnecting
| SendingAuth
| AwaitingAuth
| ServingStreams
| SessionEnded "(session_error, unit) res"
| SessionCancelled

record client_session =
  cs_stage :: client_stage
  cs_status :: "tunnel_status list"
  cs_streams :: "stream_outcome list"

datatype client_event =
  TcpDone bool
| TlsDone bool
| AuthSent "(proto_error, unit) res"
| AuthReply "(proto_error, message) res" instant
| StreamOpened bool bytes
| YamuxFailed
| YamuxClosed
| CancelFired

definition client_start :: client_session where
  "client_start = \<lparr>cs_stage = TcpConnecting, cs_status = [Connecting], cs_streams = []\<rparr>"

definition session_fails :: "session_error \<Rightarrow> client_session \<Rightarrow> client_session" where
  "session_fails e s =
     s\<lparr>cs_stage := SessionEnded (Inl e), cs_status := cs_status s @ [Failed e]\<rparr>"

fun session_over :: "client_stage \<Rightarrow> bool" where
  "session_over (SessionEnded r) = True"
| "session_over SessionCancelled = True"
| "session_over _ = False"

fun stage_step :: "(string \<Rightarrow> bool) \<Rightarrow> client \<Rightarrow> client_session \<Rightarrow> client_stage \<Rightarrow> client_event
    \<Rightarrow> client_session option" where
  "stage_step valid c s TcpConnecting (TcpDone ok) =
     (if \<not> ok then Some (session_fails ConnectFailed s)
      else if ct_enabled (cl_tls c) then
        (case resolve_server_name valid c of
           Inl e \<Rightarrow> Some (session_fails e s)
         | Inr _ \<Rightarrow> Some (s\<lparr>cs_stage := TlsConnecting\<rparr>))
      else Some (s\<lparr>cs_stage := SendingAuth\<rparr>))"
| "stage_step valid c s TlsConnecting (TlsDone ok) =
     Some (if ok then s\<lparr>cs_stage := SendingAuth\<rparr> else session_fails TlsFailed s)"
| "stage_step valid c s SendingAuth (AuthSent r) =
     Some (case r of Inl e \<Rightarrow> session_fails (WriteFailed e) s | Inr _ \<Rightarrow> s\<lparr>cs_stage := AwaitingAuth\<rparr>)"
| "stage_step valid c s AwaitingAuth (AuthReply m now) =
     Some (case on_auth_reply m of
             Inl e \<Rightarrow> session_fails e s
           | Inr route \<Rightarrow> s\<lparr>cs_stage := ServingStreams,
                            cs_status := cs_status s @ [Connected route now]\<rparr>)"
| "stage_step valid c s ServingStreams (StreamOpened local_ok arriving) =
     Some (s\<lparr>cs_streams := cs_streams s @ [client_stream local_ok arriving]\<rparr>)"
| "stage_step valid c s ServingStreams YamuxFailed = Some (s\<lparr>cs_stage := SessionEnded (Inr ())\<rparr>)"
| "stage_step valid c s ServingStreams YamuxClosed = Some (s\<lparr>cs_stage := SessionEnded (Inr ())\<rparr>)"
| "stage_step valid c s _ _ = None"

definition client_step :: "(string \<Rightarrow> bool) \<Rightarrow> client \<Rightarrow> client_session \<Rightarrow> client_event
    \<Rightarrow> client_session option" where
  "client_step valid c s ev =
     (if ev = CancelFired then
        (if session_over (cs_stage s) then None
         else Some (s\<lparr>cs_stage := SessionCancelled, cs_status := cs_status s @ [Stopped]\<rparr>))
      else stage_step valid c s (cs_stage s) ev)"

text \<open>What \<open>run_cancellable\<close> returns.\<close>

fun session_result :: "client_stage \<Rightarrow> (session_error, unit) res option" where
  "session_result (SessionEnded r) = Some r"
| "session_result SessionCancelled = Some (Inr ())"
| "session_result _ = None"

section \<open>Session after session\<close>

text \<open>A round of the loop: whether the token had fired before the session, the session's result, and
  whether the token had fired after it or fires during the pause.\<close>

record round =
  rd_before :: bool
  rd_result :: "(session_error, unit) res"
  rd_after :: bool
  rd_in_pause :: bool

text \<open>The rounds are numbered from zero. The log has the lines printed before the pauses, the
  result with the number of seconds. \<open>None\<close>: the loop goes on for ever.\<close>

partial_function (option) reconnect_from :: "(nat \<Rightarrow> round) \<Rightarrow> nat \<Rightarrow> u64
    \<Rightarrow> ((session_error, unit) res \<times> u64) list \<Rightarrow> ((session_error, unit) res \<times> u64) list option"
where
  "reconnect_from w n backoff log =
     (if rd_before (w n) then Some log
      else if rd_after (w n) then Some log
      else if rd_in_pause (w n) then Some (log @ [(rd_result (w n), backoff)])
      else reconnect_from w (Suc n) (min (backoff * 2) 30) (log @ [(rd_result (w n), backoff)]))"

definition run_with_reconnect :: "(nat \<Rightarrow> round) \<Rightarrow> ((session_error, unit) res \<times> u64) list option" where
  "run_with_reconnect w = reconnect_from w 0 1 []"

section \<open>Statuses\<close>

definition closing_status :: "client_stage \<Rightarrow> tunnel_status list" where
  "closing_status g =
     (case g of SessionEnded (Inl e) \<Rightarrow> [Failed e] | SessionCancelled \<Rightarrow> [Stopped] | _ \<Rightarrow> [])"

definition opening_status :: "client_event list \<Rightarrow> tunnel_status list \<Rightarrow> bool" where
  "opening_status es conn \<longleftrightarrow> conn = []
     \<or> (\<exists>rs t. conn = [Connected (connected_route rs) t] \<and> as_success rs
          \<and> AuthReply (Inr (AuthRes rs)) t \<in> set es)"

fun before_reply :: "client_stage \<Rightarrow> bool" where
  "before_reply TcpConnecting = True"
| "before_reply TlsConnecting = True"
| "before_reply SendingAuth = True"
| "before_reply AwaitingAuth = True"
| "before_reply (SessionEnded (Inl e)) = True"
| "before_reply _ = False"

definition status_inv :: "client_event list \<Rightarrow> client_session \<Rightarrow> bool" where
  "status_inv es s \<longleftrightarrow> (\<exists>conn. opening_status es conn
     \<and> cs_status s = Connecting # conn @ closing_status (cs_stage s)
     \<and> (conn = [] \<longrightarrow> cs_streams s = [])
     \<and> (before_reply (cs_stage s) \<longrightarrow> conn = [])
     \<and> (cs_stage s = ServingStreams \<or> cs_stage s = SessionEnded (Inr ()) \<longrightarrow> conn \<noteq> []))"

lemma opening_status_mono: "opening_status es conn \<Longrightarrow> opening_status (es @ [e]) conn"
  by (auto simp: opening_status_def)

lemma on_auth_reply_eq_Inr:
  "on_auth_reply m = Inr route \<longleftrightarrow>
     (\<exists>rs. m = Inr (AuthRes rs) \<and> as_success rs \<and> route = connected_route rs)"
  by (auto simp: on_auth_reply_def split: sum.splits message.splits)

lemma status_inv_step:
  assumes "status_inv es s" "client_step valid c s e = Some s'"
  shows "status_inv (es @ [e]) s'"
proof -
  obtain conn where conn: "opening_status (es @ [e]) conn"
    "cs_status s = Connecting # conn @ closing_status (cs_stage s)"
    "conn = [] \<longrightarrow> cs_streams s = []" "before_reply (cs_stage s) \<longrightarrow> conn = []"
    "cs_stage s = ServingStreams \<or> cs_stage s = SessionEnded (Inr ()) \<longrightarrow> conn \<noteq> []"
    using assms(1) opening_status_mono by (auto simp: status_inv_def)
  show ?thesis
  proof (cases "\<exists>m t route. e = AuthReply m t \<and> on_auth_reply m = Inr route")
    case False
    have "cs_status s' = Connecting # conn @ closing_status (cs_stage s')
      \<and> (conn = [] \<longrightarrow> cs_streams s' = []) \<and> (before_reply (cs_stage s') \<longrightarrow> conn = [])
      \<and> (cs_stage s' = ServingStreams \<or> cs_stage s' = SessionEnded (Inr ()) \<longrightarrow> conn \<noteq> [])"
      using assms(2) conn(2-5) False
      by (cases "cs_stage s"; cases e)
         (auto simp: client_step_def closing_status_def session_fails_def
           split: if_splits sum.splits)
    then show ?thesis using conn(1) unfolding status_inv_def by blast
  next
    case True
    then obtain rs t where rs: "e = AuthReply (Inr (AuthRes rs)) t" "as_success rs"
      by (auto simp: on_auth_reply_eq_Inr)
    then have g: "cs_stage s = AwaitingAuth"
      using assms(2) by (cases "cs_stage s") (auto simp: client_step_def)
    then have "s' = s\<lparr>cs_stage := ServingStreams,
        cs_status := cs_status s @ [Connected (connected_route rs) t]\<rparr>"
      using assms(2) rs by (simp add: client_step_def on_auth_reply_def)
    moreover have "opening_status (es @ [e]) [Connected (connected_route rs) t]"
      using rs by (auto simp: opening_status_def)
    ultimately show ?thesis
      using g conn(2,4) unfolding status_inv_def
      by (intro exI [of _ "[Connected (connected_route rs) t]"]) (simp add: closing_status_def)
  qed
qed

lemma status_inv_run:
  "run_steps (client_step valid c) client_start es = Some s \<Longrightarrow> status_inv es s"
proof (erule run_steps_history)
  show "status_inv [] client_start"
    by (auto simp: status_inv_def client_start_def opening_status_def closing_status_def)
qed (rule status_inv_step)

section \<open>The pauses\<close>

definition next_backoff :: "u64 \<Rightarrow> u64" where
  "next_backoff b = min (b * 2) 30"

definition stops :: "round \<Rightarrow> bool" where
  "stops r \<longleftrightarrow> rd_before r \<or> rd_after r \<or> rd_in_pause r"

lemma reconnect_go_on:
  "\<forall>m < n. \<not> stops (w (k + m)) \<Longrightarrow>
   reconnect_from w k b log = reconnect_from w (k + n) ((next_backoff ^^ n) b)
     (log @ map (\<lambda>m. (rd_result (w (k + m)), (next_backoff ^^ m) b)) [0..<n])"
proof (induction n)
  case (Suc n)
  then have "\<not> stops (w (k + n))" by simp
  then have "reconnect_from w (k + n) b' log' =
      reconnect_from w (k + Suc n) (next_backoff b') (log' @ [(rd_result (w (k + n)), b')])" for b' log'
    by (subst reconnect_from.simps) (simp add: stops_def next_backoff_def)
  then show ?case using Suc by simp
qed simp

lemma reconnect_returns_stops: "reconnect_from w k b log = Some l \<Longrightarrow> \<exists>n \<ge> k. stops (w n)"
proof (rule reconnect_from.raw_induct [where P = "\<lambda>w k b log l. \<exists>n \<ge> k. stops (w n)"])
  fix f :: "(nat \<Rightarrow> round) \<Rightarrow> nat \<Rightarrow> u64 \<Rightarrow> _ \<Rightarrow> _" and w n backoff log l
  assume IH: "\<And>w n backoff log l. f w n backoff log = Some l \<Longrightarrow> \<exists>m \<ge> n. stops (w m)"
    and eq: "(if rd_before (w n) then Some log
      else if rd_after (w n) then Some log
      else if rd_in_pause (w n) then Some (log @ [(rd_result (w n), backoff)])
      else f w (Suc n) (min (backoff * 2) 30) (log @ [(rd_result (w n), backoff)])) = Some l"
  show "\<exists>m \<ge> n. stops (w m)"
  proof (cases "stops (w n)")
    case False
    then obtain m where "m \<ge> Suc n" "stops (w m)" using eq IH by (fastforce simp: stops_def)
    then show ?thesis using Suc_leD by blast
  qed auto
qed

lemma unat_next_backoff: "unat b \<le> 30 \<Longrightarrow> unat (next_backoff b) = min (2 * unat b) 30"
proof -
  assume b: "unat b \<le> 30"
  then have "unat (b * 2) = 2 * unat b" by (simp add: unat_word_ariths)
  then show ?thesis
    using b by (simp add: next_backoff_def min_def word_le_nat_alt)
qed

lemma unat_backoff: "unat ((next_backoff ^^ n) 1) = min (2 ^ n) 30"
proof (induction n)
  case (Suc n)
  then show ?case by (simp add: unat_next_backoff min_def)
qed simp

text \<open>The whole run, up to the first round that sees the token.\<close>

lemma run_until_stop:
  assumes "stops (w n)" "\<forall>m < n. \<not> stops (w m)"
  shows "run_with_reconnect w = Some (map (\<lambda>m. (rd_result (w m), (next_backoff ^^ m) 1))
    [0..<if rd_before (w n) \<or> rd_after (w n) then n else Suc n])"
proof -
  have "reconnect_from w n b log =
      Some (if rd_before (w n) \<or> rd_after (w n) then log else log @ [(rd_result (w n), b)])" for b log
    using assms(1) by (subst reconnect_from.simps) (auto simp: stops_def)
  then show ?thesis
    using reconnect_go_on [of n w 0 1 "[]"] assms(2) by (simp add: run_with_reconnect_def)
qed

lemma first_stop:
  assumes "run_with_reconnect w = Some log"
  obtains n where "stops (w n)" "\<forall>m < n. \<not> stops (w m)"
proof -
  obtain k where "stops (w k)"
    using reconnect_returns_stops [OF assms [unfolded run_with_reconnect_def]] by blast
  then show ?thesis using that exists_least_iff [of "\<lambda>n. stops (w n)"] by auto
qed

section \<open>Properties\<close>


abbreviation demo_client :: client where
  "demo_client \<equiv> \<lparr>cl_server_addr = ''t.io:6200'', cl_local_addr = ''localhost:80'',
     cl_client_id = ''app'', cl_token = ''x'', cl_tls = \<lparr>ct_enabled = True, ct_server_name = [],
       ct_skip_verify = False\<rparr>\<rparr>"

abbreviation demo_reply :: auth_res where
  "demo_reply \<equiv> \<lparr>as_success = True, as_message = client_ok_prefix @ ''app.t.io'',
     as_public_port = None, as_assigned_route = None\<rparr>"


text \<open>C29: The client never gives up and always stops when told to: the loop returns if and only if
  the token is seen to have fired in some round.\<close>

theorem reconnect_until_cancelled:
  "(\<exists>log. run_with_reconnect w = Some log)
     \<longleftrightarrow> (\<exists>n. rd_before (w n) \<or> rd_after (w n) \<or> rd_in_pause (w n))"
proof
  assume "\<exists>log. run_with_reconnect w = Some log"
  then show "\<exists>n. rd_before (w n) \<or> rd_after (w n) \<or> rd_in_pause (w n)"
    using first_stop unfolding stops_def by metis
next
  assume "\<exists>n. rd_before (w n) \<or> rd_after (w n) \<or> rd_in_pause (w n)"
  then obtain n where n: "stops (w n)" "\<forall>m < n. \<not> stops (w m)"
    using exists_least_iff [of "\<lambda>n. stops (w n)"] by (auto simp: stops_def)
  then show "\<exists>log. run_with_reconnect w = Some log" using run_until_stop by blast
qed

text \<open>C30: The pauses: before the \<open>k\<close>-th attempt but the first the client waits
  \<open>min (2^(k-1)) 30\<close> seconds, whatever happened before; a session that was connected for hours
  does not bring the pause back to one second. The loop ends in the first round that sees the
  token.\<close>

theorem reconnect_backoff:
  assumes "run_with_reconnect w = Some log"
  shows "\<exists>n. (rd_before (w n) \<or> rd_after (w n) \<or> rd_in_pause (w n))
    \<and> (\<forall>m < n. \<not> (rd_before (w m) \<or> rd_after (w m) \<or> rd_in_pause (w m)))
    \<and> length log = (if rd_before (w n) \<or> rd_after (w n) then n else Suc n)
    \<and> (\<forall>k < length log. fst (log ! k) = rd_result (w k) \<and> unat (snd (log ! k)) = min (2 ^ k) 30)"
proof -
  obtain n where n: "stops (w n)" "\<forall>m < n. \<not> stops (w m)" by (rule first_stop [OF assms])
  let ?f = "\<lambda>m. (rd_result (w m), (next_backoff ^^ m) 1)"
  have "log = map ?f [0..<if rd_before (w n) \<or> rd_after (w n) then n else Suc n]"
    using run_until_stop [OF n] assms by simp
  then have "length log = (if rd_before (w n) \<or> rd_after (w n) then n else Suc n)"
    "\<forall>k < length log. log ! k = ?f k"
    by (auto split: if_splits simp del: upt_Suc)
  with n show ?thesis
    by (intro exI [of _ n]) (simp add: unat_backoff stops_def)
qed

theorem reconnect_backoff_witness:
  "\<exists>log. run_with_reconnect (\<lambda>n. \<lparr>rd_before = (n = 7), rd_result = Inl ConnectFailed,
       rd_after = False, rd_in_pause = False\<rparr>) = Some log
     \<and> unat (snd (log ! 3)) = 8 \<and> unat (snd (log ! 6)) = 30"
proof -
  let ?w = "\<lambda>n :: nat. \<lparr>rd_before = (n = 7), rd_result = Inl ConnectFailed,
       rd_after = False, rd_in_pause = False\<rparr>"
  have "\<exists>log. run_with_reconnect ?w = Some log"
    by (simp add: run_with_reconnect_def reconnect_from.simps)
  then obtain log where log: "run_with_reconnect ?w = Some log" by blast
  from reconnect_backoff [OF log] have "length log = 7"
    "unat (snd (log ! 3)) = 8" "unat (snd (log ! 6)) = 30"
    by (auto simp: numeral_eq_Suc)
  with log show ?thesis by blast
qed

end
