(* ===== verification/Client_Tls.thy ===== *)
theory Client_Tls
  imports Client_Session
begin

text \<open>
  TLS in the client, \<open>tls_connect\<close> and \<open>NoVerifier\<close> of \<open>client.rs\<close>: which check of the
  server's certificate a session uses, for which name, and what that means for the token, which is
  the first thing the client sends.

  The handshake itself is that of \<open>rustls\<close>: \<open>tl_handshake\<close> says whether it succeeds with a given
  verifier, for a name, with a peer; \<open>tl_webpki\<close> is its verifier on the web's root certificates.
  Its default protocol versions are supported by the \<open>ring\<close> provider, so that building the
  configuration does not fail.
\<close>

section \<open>Verifiers\<close>

record 'c verifier =
  vf_cert :: "'c list \<Rightarrow> string \<Rightarrow> bool"
  vf_tls12_signature :: "bytes \<Rightarrow> 'c \<Rightarrow> bool"
  vf_tls13_signature :: "bytes \<Rightarrow> 'c \<Rightarrow> bool"
  vf_schemes :: "string list"

record ('c, 'p) tls_lib =
  tl_valid_name :: "string \<Rightarrow> bool"
  tl_webpki :: "'c verifier"
  tl_ring_schemes :: "string list"
  tl_handshake :: "'c verifier \<Rightarrow> string \<Rightarrow> 'p \<Rightarrow> bool"
  tl_chain :: "'p \<Rightarrow> 'c list"

definition no_verifier :: "('c, 'p) tls_lib \<Rightarrow> 'c verifier" where
  "no_verifier T =
     \<lparr>vf_cert = (\<lambda>chain name. True), vf_tls12_signature = (\<lambda>message cert. True),
      vf_tls13_signature = (\<lambda>message cert. True), vf_schemes = tl_ring_schemes T\<rparr>"

definition tls_verifier :: "('c, 'p) tls_lib \<Rightarrow> client \<Rightarrow> 'c verifier" where
  "tls_verifier T c = (if ct_skip_verify (cl_tls c) then no_verifier T else tl_webpki T)"

definition tls_connect :: "('c, 'p) tls_lib \<Rightarrow> client \<Rightarrow> 'p \<Rightarrow> (session_error, unit) res" where
  "tls_connect T c peer =
     bind_res (resolve_server_name (tl_valid_name T) c)
       (\<lambda>name. if tl_handshake T (tls_verifier T c) name peer then Inr () else Inl TlsFailed)"

text \<open>What \<open>rustls\<close> documents of a client's handshake: it does not succeed unless the verifier has
  accepted the certificates the server showed, for the name the client asked for.\<close>

definition handshake_checks :: "('c, 'p) tls_lib \<Rightarrow> bool" where
  "handshake_checks T \<longleftrightarrow>
     (\<forall>v name p. tl_handshake T v name p \<longrightarrow> vf_cert v (tl_chain T p) name)"

section \<open>The machine of a session and the connection\<close>

text \<open>The outcome of the handshake in the events of a session is the one with the session's peer.\<close>

definition with_peer :: "('c, 'p) tls_lib \<Rightarrow> client \<Rightarrow> 'p \<Rightarrow> client_event list \<Rightarrow> bool" where
  "with_peer T c peer es \<longleftrightarrow> (\<forall>ok. TlsDone ok \<in> set es \<longrightarrow> ok = (tls_connect T c peer = Inr ()))"

text \<open>The two steps of the machine are the function.\<close>

lemma tls_connect_steps:
  assumes "ct_enabled (cl_tls c)" and "cs_stage s = TcpConnecting"
  shows "client_step (tl_valid_name T) c s (TcpDone True) = Some
     (case resolve_server_name (tl_valid_name T) c of
        Inl e \<Rightarrow> session_fails e s | Inr name \<Rightarrow> s\<lparr>cs_stage := TlsConnecting\<rparr>)"
    "resolve_server_name (tl_valid_name T) c = Inr name \<Longrightarrow>
     client_step (tl_valid_name T) c (s\<lparr>cs_stage := TlsConnecting\<rparr>) (TlsDone (tls_connect T c peer = Inr ()))
     = Some (case tls_connect T c peer of
               Inl e \<Rightarrow> session_fails e (s\<lparr>cs_stage := TlsConnecting\<rparr>)
             | Inr _ \<Rightarrow> s\<lparr>cs_stage := SendingAuth\<rparr>)"
  using assms by (auto simp: client_step_def tls_connect_def split: sum.split)

fun past_tls :: "client_stage \<Rightarrow> bool" where
  "past_tls SendingAuth = True"
| "past_tls AwaitingAuth = True"
| "past_tls ServingStreams = True"
| "past_tls _ = False"

lemma shaken_before_auth:
  assumes "run_steps (client_step valid c) client_start es = Some s" and "ct_enabled (cl_tls c)"
  shows "(past_tls (cs_stage s) \<or> (\<exists>r. AuthSent r \<in> set es)) \<longrightarrow> TlsDone True \<in> set es"
  using assms(1)
proof (rule run_steps_history)
  fix es s e s'
  assume IH: "(past_tls (cs_stage s) \<or> (\<exists>r. AuthSent r \<in> set es)) \<longrightarrow> TlsDone True \<in> set es"
    and st: "client_step valid c s e = Some s'"
  then show "(past_tls (cs_stage s') \<or> (\<exists>r. AuthSent r \<in> set (es @ [e]))) \<longrightarrow> TlsDone True \<in> set (es @ [e])"
    using assms(2)
    by (cases "cs_stage s"; cases e)
       (auto simp: client_step_def session_fails_def split: if_splits sum.splits)
qed (simp add: client_start_def)

text \<open>The host part of the server's address is the name, unless one is configured.\<close>

lemma resolved_name:
  assumes "resolve_server_name valid c = Inr name"
  shows "valid name" "name = (if ct_server_name (cl_tls c) \<noteq> [] then ct_server_name (cl_tls c)
      else takeWhile (\<lambda>x. x \<noteq> CHR '':'') (cl_server_addr c))"
  using assms hd_split_on [of "CHR '':''" "cl_server_addr c"]
  by (auto simp: resolve_server_name_def Let_def split: if_splits list.splits)

section \<open>Properties\<close>


text \<open>An IPv6 address of the server is cut at its first colon, so that with TLS and no configured
  name such a server cannot be reached, unless the text before the colon happens to be a name.\<close>

lemma ipv6_server_refused:
  assumes "ct_server_name (cl_tls c) = []" "cl_server_addr c = ''['' @ a @ '':'' @ b"
    "CHR '':'' \<notin> set a" "\<not> valid (''['' @ a)"
  shows "resolve_server_name valid c = Inl (InvalidServerName (''['' @ a))"
proof -
  have "split_on CHR '':'' ((''['' @ a) @ CHR '':'' # b) = (''['' @ a) # split_on CHR '':'' b"
    using assms(3) by (intro split_on_append) simp
  then show ?thesis using assms by (simp add: resolve_server_name_def)
qed


abbreviation demo_tls :: "(string, string) tls_lib" where
  "demo_tls \<equiv> \<lparr>tl_valid_name = (\<lambda>_. True),
     tl_webpki = \<lparr>vf_cert = (\<lambda>chain name. chain = [name]), vf_tls12_signature = (\<lambda>_ _. True),
       vf_tls13_signature = (\<lambda>_ _. True), vf_schemes = []\<rparr>,
     tl_ring_schemes = [], tl_handshake = (\<lambda>v name p. vf_cert v [p] name), tl_chain = (\<lambda>p. [p])\<rparr>"


end
