(* ===== verification/Client_Cli.thy ===== *)
theory Client_Cli
  imports Client_Session "HOL-Library.Char_ord" "HOL-Library.List_Lexorder"
begin

text \<open>
  The client's commands, \<open>zo-tunnel-client/src/main.rs\<close>: background tunnels and their pid
  files, configuration, status, stop, and starting a tunnel in the foreground or the background.

  The world of a command is the file system, the signals sent and the lines printed. Whether a
  process is there, what \<open>kill(pid, 0)\<close> answers, depends on the signals sent before and is a
  parameter. Command-line parsing (\<open>clap\<close>), log set-up and \<open>setsid\<close> are left out.
\<close>

section \<open>The world\<close>

record cli_world = client_io +
  cw_signals :: "(int \<times> nat) list"
  cw_out :: "string list"

datatype cli_error =
  CliConfig config_error
| Panicked
| AlreadyRunning string
| SpawnFailed
| ExitedEarly string

definition SIGTERM :: nat where
  "SIGTERM = 15"

definition say :: "string \<Rightarrow> cli_world \<Rightarrow> cli_world" where
  "say line w = w\<lparr>cw_out := cw_out w @ [line]\<rparr>"

definition in_cli :: "(config_error, 'a) res \<times> cli_world \<Rightarrow> (cli_error, 'a) res \<times> cli_world" where
  "in_cli p = (map_err CliConfig (fst p), snd p)"

definition unlink :: "string \<Rightarrow> cli_world \<Rightarrow> cli_world" where
  "unlink p w = w\<lparr>ci_fs := snd (fs_remove_file p (ci_fs w))\<rparr>"

section \<open>Pid files\<close>

definition tunnels_dir :: "environment \<Rightarrow> cli_world \<Rightarrow> (cli_error, string) res \<times> cli_world" where
  "tunnels_dir e w =
     try_then (in_cli (client_config_dir e, w)) (\<lambda>d w.
       let dir = path_join d ''tunnels''
       in try_then (in_cli (make_dirs dir w)) (\<lambda>_ w. (Inr dir, w)))"

definition pid_path :: "environment \<Rightarrow> string \<Rightarrow> cli_world \<Rightarrow> (cli_error, string) res \<times> cli_world" where
  "pid_path e name w =
     try_then (tunnels_dir e w) (\<lambda>dir w. (Inr (path_join dir (name @ ''.pid'')), w))"

definition log_path :: "environment \<Rightarrow> string \<Rightarrow> cli_world \<Rightarrow> (cli_error, string) res \<times> cli_world" where
  "log_path e name w =
     try_then (tunnels_dir e w) (\<lambda>dir w. (Inr (path_join dir (name @ ''.log'')), w))"

text \<open>\<open>pid as i32\<close> reads the same bits as a signed number.\<close>

definition is_pid_alive :: "((int \<times> nat) list \<Rightarrow> int \<Rightarrow> bool) \<Rightarrow> cli_world \<Rightarrow> u32 \<Rightarrow> bool" where
  "is_pid_alive alive w pid = alive (cw_signals w) (sint pid)"

definition parse_pid :: "string \<Rightarrow> u32" where
  "parse_pid s = (case parse_u32 (trim s) of Some n \<Rightarrow> word_of_nat n | None \<Rightarrow> 0)"

definition read_pid :: "((int \<times> nat) list \<Rightarrow> int \<Rightarrow> bool) \<Rightarrow> environment \<Rightarrow> string \<Rightarrow> cli_world
    \<Rightarrow> (cli_error, u32 option) res \<times> cli_world" where
  "read_pid alive e name w =
     try_then (pid_path e name w) (\<lambda>path w.
       if \<not> fs_exists (ci_fs w) path then (Inr None, w)
       else try_then (in_cli (map_err ConfigIo (fs_read_to_string (ci_fs w) path), w)) (\<lambda>s w.
         let pid = parse_pid s
         in if pid = 0 then (Inr None, w)
            else if is_pid_alive alive w pid then (Inr (Some pid), w)
            else (Inr None, unlink path w)))"

definition write_pid :: "environment \<Rightarrow> string \<Rightarrow> u32 \<Rightarrow> cli_world
    \<Rightarrow> (cli_error, unit) res \<times> cli_world" where
  "write_pid e name pid w =
     try_then (pid_path e name w) (\<lambda>path w.
       in_cli (write_file path (show_nat (unat pid) @ [CHR 0x0A]) w))"

fun collect_pids :: "((int \<times> nat) list \<Rightarrow> int \<Rightarrow> bool) \<Rightarrow> environment \<Rightarrow> string list
    \<Rightarrow> (string \<times> u32) list \<Rightarrow> cli_world \<Rightarrow> (cli_error, (string \<times> u32) list) res \<times> cli_world" where
  "collect_pids alive e [] out w = (Inr out, w)"
| "collect_pids alive e (entry # entries) out w =
     (case strip_suffix ''.pid'' (from_utf8_lossy (as_bytes entry)) of
        None \<Rightarrow> collect_pids alive e entries out w
      | Some stem \<Rightarrow>
          try_then (read_pid alive e stem w) (\<lambda>p w.
            collect_pids alive e entries
              (case p of Some pid \<Rightarrow> out @ [(stem, pid)] | None \<Rightarrow> out) w))"

definition list_running_tunnels :: "((int \<times> nat) list \<Rightarrow> int \<Rightarrow> bool) \<Rightarrow> environment \<Rightarrow> cli_world
    \<Rightarrow> (cli_error, (string \<times> u32) list) res \<times> cli_world" where
  "list_running_tunnels alive e w =
     try_then (tunnels_dir e w) (\<lambda>dir w.
     try_then (in_cli (map_err ConfigIo (fs_read_dir (ci_fs w) dir), w)) (\<lambda>entries w.
     try_then (collect_pids alive e entries [] w) (\<lambda>out w. (Inr (sort_key fst out), w))))"

section \<open>Configuration and status\<close>

datatype config_action =
  ConfigSet string string bool string bool
| ConfigShow

definition show_bool :: "bool \<Rightarrow> string" where
  "show_bool b = (if b then ''true'' else ''false'')"

definition say_token :: "client_config \<Rightarrow> string \<Rightarrow> cli_world \<Rightarrow> (cli_error, unit) res \<times> cli_world"
where
  "say_token cfg label w =
     (case masked_token cfg of None \<Rightarrow> (Inl Panicked, w) | Some t \<Rightarrow> (Inr (), say (label @ t) w))"

fun cmd_config :: "client_yaml \<Rightarrow> environment \<Rightarrow> config_action \<Rightarrow> cli_world
    \<Rightarrow> (cli_error, unit) res \<times> cli_world" where
  "cmd_config y e (ConfigSet server token tls tls_server_name tls_skip_verify) w =
     (let cfg = \<lparr>cc_server = server, cc_token = token,
                 cc_tls = \<lparr>ct_enabled = tls, ct_server_name = tls_server_name,
                           ct_skip_verify = tls_skip_verify\<rparr>\<rparr>
      in try_then (in_cli (save_client_config y e cfg w)) (\<lambda>_ w.
         try_then (in_cli (client_config_path e, w)) (\<lambda>path w.
         say_token cfg ''  token:  '' (say (''  server: '' @ server) (say (''Saved '' @ path) w)))))"
| "cmd_config y e ConfigShow w =
     try_then (in_cli (load_client_config y e (ci_fs w), w)) (\<lambda>cfg w.
     try_then (say_token cfg ''token:  '' (say (''server: '' @ cc_server cfg) w)) (\<lambda>_ w.
     (Inr (), say (''tls:    '' @ show_bool (ct_enabled (cc_tls cfg))) w)))"

definition cmd_status :: "string \<Rightarrow> ((int \<times> nat) list \<Rightarrow> int \<Rightarrow> bool) \<Rightarrow> client_yaml \<Rightarrow> environment
    \<Rightarrow> cli_world \<Rightarrow> (cli_error, unit) res \<times> cli_world" where
  "cmd_status version alive y e w0 =
     (let w = say (''zotunnel v'' @ version) w0
      in try_then
           (case load_client_config y e (ci_fs w) of
              Inr cfg \<Rightarrow> say_token cfg ''token:  '' (say (''server: '' @ cc_server cfg) w)
            | Inl _ \<Rightarrow> (Inr (), say ''Not configured. Run: zotunnel config set --server HOST:6200 --token TOKEN'' w))
           (\<lambda>_ w.
         try_then (list_running_tunnels alive e w) (\<lambda>running w.
           if running = [] then (Inr (), say ''tunnels: (none running in background)'' w)
           else (Inr (), say ''Stop: zotunnel stop <name>   or   zotunnel stop''
                  (fold (\<lambda>(name, pid). say (''  '' @ name @ ''  pid='' @ show_nat (unat pid)))
                    running (say ''tunnels:'' w))))))"

section \<open>Stopping\<close>

definition stop_one :: "((int \<times> nat) list \<Rightarrow> int \<Rightarrow> bool) \<Rightarrow> environment \<Rightarrow> string \<Rightarrow> cli_world
    \<Rightarrow> (cli_error, unit) res \<times> cli_world" where
  "stop_one alive e name w =
     try_then (read_pid alive e name w) (\<lambda>p w.
       case p of
         Some pid \<Rightarrow>
           try_then (pid_path e name (w\<lparr>cw_signals := cw_signals w @ [(sint pid, SIGTERM)]\<rparr>)) (\<lambda>path w.
             (Inr (), say (''Stopped '' @ squote @ name @ squote @ '' (pid '' @ show_nat (unat pid) @ '')'')
                (unlink path w)))
       | None \<Rightarrow> (Inr (), say (squote @ name @ squote @ '' is not running'') w))"

fun stop_each :: "((int \<times> nat) list \<Rightarrow> int \<Rightarrow> bool) \<Rightarrow> environment \<Rightarrow> string list \<Rightarrow> cli_world
    \<Rightarrow> (cli_error, unit) res \<times> cli_world" where
  "stop_each alive e [] w = (Inr (), w)"
| "stop_each alive e (name # names) w =
     try_then (stop_one alive e name w) (\<lambda>_ w. stop_each alive e names w)"

definition cmd_stop :: "((int \<times> nat) list \<Rightarrow> int \<Rightarrow> bool) \<Rightarrow> environment \<Rightarrow> string option \<Rightarrow> cli_world
    \<Rightarrow> (cli_error, unit) res \<times> cli_world" where
  "cmd_stop alive e name w =
     try_then
       (case name of
          Some n \<Rightarrow> (Inr [n], w)
        | None \<Rightarrow> try_then (list_running_tunnels alive e w) (\<lambda>running w. (Inr (map fst running), w)))
       (\<lambda>targets w.
         if targets = [] then (Inr (), say ''No background tunnels running.'' w)
         else stop_each alive e targets w)"

section \<open>Starting a tunnel\<close>

record http_args =
  ha_addr :: string
  ha_name :: "string option"
  ha_detach :: bool
  ha_daemon_child :: bool

text \<open>\<open>str::lines\<close>: the pieces between line feeds, without the carriage return before one, and
  without an empty piece at the end.\<close>

definition strip_cr :: "string \<Rightarrow> string" where
  "strip_cr s = (case strip_suffix [CHR 0x0D] s of Some r \<Rightarrow> r | None \<Rightarrow> s)"

definition str_lines :: "string \<Rightarrow> string list" where
  "str_lines s =
     (let ps = split_on (CHR 0x0A) s
      in map strip_cr (butlast ps) @ (if last ps = [] then [] else [last ps]))"

definition forwarding_prefix :: string where
  "forwarding_prefix = ''Forwarding  ''"

fun find_forwarding :: "string list \<Rightarrow> string option" where
  "find_forwarding [] = None"
| "find_forwarding (line # rest) =
     (case strip_prefix forwarding_prefix line of Some f \<Rightarrow> Some f | None \<Rightarrow> find_forwarding rest)"

text \<open>What the waiting parent sees in one turn of its loop: whether the child lives, and the log
  file, if it can be opened. The list of turns ends at the deadline.\<close>

record observation =
  ob_alive :: bool
  ob_log :: "string option"

definition read_from :: "nat \<Rightarrow> string \<Rightarrow> string" where
  "read_from offset t = (if is_str (drop offset t) then drop offset t else [])"

fun wait_forwarding :: "observation list \<Rightarrow> nat \<Rightarrow> (string, string option) res" where
  "wait_forwarding [] offset = Inr None"
| "wait_forwarding (o1 # os) offset =
     (if \<not> ob_alive o1 then
        Inl (trim (case ob_log o1 of Some t \<Rightarrow> if is_str t then t else [] | None \<Rightarrow> []))
      else case ob_log o1 of
             None \<Rightarrow> wait_forwarding os offset
           | Some t \<Rightarrow>
               let buf = read_from offset t in
               (case find_forwarding (str_lines buf) of
                  Some f \<Rightarrow> Inr (Some f)
                | None \<Rightarrow> wait_forwarding os (offset + length buf)))"

text \<open>\<open>child\<close> is the process id of the spawned program, if it could be spawned. The error text
  of \<open>AlreadyRunning\<close> and the hints at the end name the tunnel.\<close>

definition spawn_detached :: "string \<Rightarrow> ((int \<times> nat) list \<Rightarrow> int \<Rightarrow> bool) \<Rightarrow> environment
    \<Rightarrow> u32 option \<Rightarrow> observation list \<Rightarrow> string \<Rightarrow> cli_world \<Rightarrow> (cli_error, unit) res \<times> cli_world"
where
  "spawn_detached version alive e child obs client_id w =
     try_then (read_pid alive e client_id w) (\<lambda>running w.
       if running \<noteq> None then (Inl (AlreadyRunning client_id), w)
       else
         try_then (log_path e client_id w) (\<lambda>log w.
         try_then (in_cli (write_file log [] w)) (\<lambda>_ w.
         case child of
           None \<Rightarrow> (Inl SpawnFailed, w)
         | Some pid \<Rightarrow>
             try_then (write_pid e client_id pid w) (\<lambda>_ w.
               case wait_forwarding obs 0 of
                 Inl text \<Rightarrow> (Inl (ExitedEarly text), w)
               | Inr forwarding \<Rightarrow>
                   (Inr (),
                    fold say
                      [''zotunnel v'' @ version,
                       (case forwarding of
                          Some f \<Rightarrow> forwarding_prefix @ f
                        | None \<Rightarrow> ''Started '' @ squote @ client_id @ squote @ '' in background (pid ''
                            @ show_nat (unat pid) @ ''). Still connecting'' @ [CHR 0xE2, CHR 0x80, CHR 0xA6]),
                       ''Log:    '' @ log, ''Stop:   zotunnel stop '' @ client_id,
                       ''Status: zotunnel status''] w)))))"

text \<open>The lines printed for the statuses the printer gets to see (it may miss some).\<close>

fun print_status :: "bool \<Rightarrow> string \<Rightarrow> tunnel_status list \<Rightarrow> string list" where
  "print_status quiet local_addr [] = []"
| "print_status quiet local_addr (Connected route since # rest) =
     [[], forwarding_prefix @ route @ '' -> http://'' @ local_addr]
       @ (if quiet then [] else [[], ''Press Ctrl+C to stop''])"
| "print_status quiet local_addr (_ # rest) = print_status quiet local_addr rest"

definition http_client :: "client_config \<Rightarrow> string \<Rightarrow> string \<Rightarrow> client" where
  "http_client cfg local_addr client_id =
     \<lparr>cl_server_addr = cc_server cfg, cl_local_addr = local_addr, cl_client_id = client_id,
      cl_token = cc_token cfg, cl_tls = cc_tls cfg\<rparr>"

definition http_client_id :: "bytes \<Rightarrow> http_args \<Rightarrow> string" where
  "http_client_id rnd args = (case ha_name args of Some n \<Rightarrow> n | None \<Rightarrow> generate_name rnd)"

text \<open>The whole command: \<open>None\<close> if the reconnect loop never ends. When it ends, the pid file is
  removed.\<close>

definition cmd_http :: "string \<Rightarrow> ((int \<times> nat) list \<Rightarrow> int \<Rightarrow> bool) \<Rightarrow> client_yaml \<Rightarrow> environment
    \<Rightarrow> bytes \<Rightarrow> u32 option \<Rightarrow> observation list \<Rightarrow> (client \<Rightarrow> nat \<Rightarrow> round) \<Rightarrow> tunnel_status list
    \<Rightarrow> http_args \<Rightarrow> cli_world \<Rightarrow> ((cli_error, unit) res \<times> cli_world) option" where
  "cmd_http version alive y e rnd child obs rounds seen args w =
     (case load_client_config y e (ci_fs w) of
        Inl err \<Rightarrow> Some (Inl (CliConfig err), w)
      | Inr cfg \<Rightarrow>
          let local_addr = normalize_local_addr (ha_addr args); client_id = http_client_id rnd args in
          if ha_detach args \<and> \<not> ha_daemon_child args
          then Some (spawn_detached version alive e child obs client_id w)
          else
            let w1 = fold say ([''zotunnel v'' @ version,
                       ''Connecting to '' @ cc_server cfg @ '' as '' @ squote @ client_id @ squote @ ''...'']
                       @ print_status (ha_daemon_child args) local_addr seen) w
            in map_option
                 (\<lambda>log. try_then (pid_path e client_id w1) (\<lambda>path w. (Inr (), unlink path w)))
                 (run_with_reconnect (rounds (http_client cfg local_addr client_id))))"

section \<open>Files of the tunnels directory\<close>

definition tunnels_path :: "environment \<Rightarrow> string option" where
  "tunnels_path e =
     map_option (\<lambda>home. path_join (path_join home ''.zotunnel'') ''tunnels'') (env_var e ''HOME'')"

definition pid_file :: "string \<Rightarrow> string \<Rightarrow> string" where
  "pid_file dir name = path_join dir (name @ ''.pid'')"

text \<open>The pid a file records, if it can be read and records one.\<close>

definition recorded_pid :: "fs \<Rightarrow> string \<Rightarrow> u32 option" where
  "recorded_pid s p =
     (case fs_read_to_string s p of
        Inr c \<Rightarrow> if parse_pid c = 0 then None else Some (parse_pid c)
      | Inl _ \<Rightarrow> None)"

lemma tunnels_dir_cases:
  assumes "tunnels_dir e w = (r, w')"
  obtains
    (ok) dir where "r = Inr dir" "tunnels_path e = Some dir"
      "ci_fs w' = ci_fs w \<or> ci_fs w' = (ci_fs w)\<lparr>fs_dirs := dir # fs_dirs (ci_fs w)\<rparr>"
      "w' = w\<lparr>ci_fs := ci_fs w'\<rparr>" "fs_is_dir (ci_fs w') dir"
      "recorded_pid (ci_fs w') = recorded_pid (ci_fs w)"
  | (failed) err where "r = Inl err" "w' = w"
proof (cases "env_var e ''HOME''")
  case None
  then show thesis
    using assms failed by (auto simp: tunnels_dir_def client_config_dir_def in_cli_def)
next
  case (Some home)
  let ?dir = "path_join (path_join home ''.zotunnel'') ''tunnels''"
  have t: "tunnels_path e = Some ?dir" using Some by (simp add: tunnels_path_def)
  show thesis
  proof (cases "fst (make_dirs ?dir w)")
    case (Inl err)
    then have "w' = w" "r = Inl (CliConfig err)"
      using assms Some
      by (auto simp: tunnels_dir_def client_config_dir_def in_cli_def make_dirs_def Let_def
          fs_create_dir_all_def split: if_splits)
    then show thesis using failed by blast
  next
    case (Inr u)
    then have *: "r = Inr ?dir" "w' = snd (make_dirs ?dir w)"
      using assms Some
      by (auto simp: tunnels_dir_def client_config_dir_def in_cli_def Let_def)
    have "recorded_pid (ci_fs w') = recorded_pid (ci_fs w)"
      using * Inr
      by (auto simp: make_dirs_def fs_create_dir_all_def recorded_pid_def fs_read_to_string_def
          fs_read_def fs_is_dir_def fs_is_file_def fun_eq_iff split: if_splits prod.splits)
    with * show thesis
      using ok [OF _ t] Inr
      by (auto simp: make_dirs_def fs_create_dir_all_def fs_is_dir_def split: if_splits prod.splits)
  qed
qed

text \<open>The process a pid file stands for.\<close>

definition live_pid :: "((int \<times> nat) list \<Rightarrow> int \<Rightarrow> bool) \<Rightarrow> cli_world \<Rightarrow> string \<Rightarrow> u32 option" where
  "live_pid alive w p =
     (case recorded_pid (ci_fs w) p of
        Some pid \<Rightarrow> if is_pid_alive alive w pid then Some pid else None
      | None \<Rightarrow> None)"

lemma pid_file_not_dir:
  assumes "tunnels_path e = Some dir"
  shows "pid_file dir name \<noteq> dir"
proof -
  have "last (pid_file dir name) = CHR ''d''" by (simp add: pid_file_def path_join_def)
  moreover have "last dir = CHR ''s''"
    using assms by (auto simp: tunnels_path_def path_join_def starts_with_iff)
  ultimately show ?thesis by auto
qed

lemma fs_read_to_string_new_dir:
  assumes "q \<noteq> dir \<or> \<not> fs_is_file s dir"
  shows "(\<exists>c. fs_read_to_string (s\<lparr>fs_dirs := dir # fs_dirs s\<rparr>) q = Inr c \<and> P c)
    \<longleftrightarrow> (\<exists>c. fs_read_to_string s q = Inr c \<and> P c)"
  using assms
  by (auto simp: fs_read_to_string_def fs_read_def fs_is_dir_def fs_is_file_def split: option.splits)

text \<open>A file system that has lost files and gained directories, at most.\<close>

definition loses_files :: "fs \<Rightarrow> fs \<Rightarrow> bool" where
  "loses_files s s' \<longleftrightarrow> (fs_wf s \<longrightarrow> fs_wf s')
     \<and> (\<forall>p c. fs_wf s \<longrightarrow> fs_read_to_string s' p = Inr c \<longrightarrow> fs_read_to_string s p = Inr c)"

lemma loses_files_refl [simp]: "loses_files s s"
  by (simp add: loses_files_def)

lemma loses_files_trans: "loses_files a b \<Longrightarrow> loses_files b c \<Longrightarrow> loses_files a c"
  by (simp add: loses_files_def)

lemma loses_files_dir: "loses_files s (s\<lparr>fs_dirs := d # fs_dirs s\<rparr>)"
  by (auto simp: loses_files_def fs_wf_def fs_read_to_string_def fs_read_def fs_is_dir_def
      split: if_splits)

lemma loses_files_remove: "loses_files s (snd (fs_remove_file p s))"
  by (auto simp: loses_files_def fs_remove_file_def fs_wf_def fs_read_to_string_def fs_read_def
      fs_is_dir_def dm_remove_get bind_res_eq_Inr split: if_splits option.splits)

lemma recorded_pid_mono:
  "loses_files s s' \<Longrightarrow> fs_wf s \<Longrightarrow> recorded_pid s' p = Some pid \<Longrightarrow> recorded_pid s p = Some pid"
  by (auto simp: recorded_pid_def loses_files_def split: sum.splits if_splits)

lemma pid_path_cases:
  assumes "pid_path e name w = (r, w')"
  obtains
    (ok) dir where "r = Inr (pid_file dir name)" "tunnels_path e = Some dir"
      "fs_read_to_string (ci_fs w') (pid_file dir name) = fs_read_to_string (ci_fs w) (pid_file dir name)"
      "loses_files (ci_fs w) (ci_fs w')" "fs_files (ci_fs w') = fs_files (ci_fs w)"
      "w' = w\<lparr>ci_fs := ci_fs w'\<rparr>" "fs_is_dir (ci_fs w') dir"
      "recorded_pid (ci_fs w') = recorded_pid (ci_fs w)"
  | (failed) err where "r = Inl err" "w' = w"
proof -
  obtain r1 w1 where t: "tunnels_dir e w = (r1, w1)" by (cases "tunnels_dir e w")
  from t show thesis
  proof (cases rule: tunnels_dir_cases)
    case (ok dir)
    then have w': "w' = w1" "r = Inr (pid_file dir name)"
      using assms t by (simp_all add: pid_path_def pid_file_def)
    have "pid_file dir name \<noteq> dir" using pid_file_not_dir ok(2) .
    then have "fs_read_to_string (ci_fs w1) (pid_file dir name) = fs_read_to_string (ci_fs w) (pid_file dir name)"
      using ok(3) by (auto simp: fs_read_to_string_def fs_read_def fs_is_dir_def)
    moreover have "loses_files (ci_fs w) (ci_fs w1)" "fs_files (ci_fs w1) = fs_files (ci_fs w)"
      using ok(3) loses_files_dir by (metis loses_files_refl, auto)
    ultimately show thesis using that(1) ok w' by simp
  next
    case (failed err)
    then have "r = Inl err" "w' = w" using assms t by (simp_all add: pid_path_def)
    then show thesis by (rule that(2))
  qed
qed

lemma fs_read_exists: "fs_read_to_string s p = Inr c \<Longrightarrow> fs_exists s p"
  by (auto simp: fs_read_to_string_def fs_read_def fs_exists_def fs_is_file_def bind_res_eq_Inr
      split: if_splits option.splits)

lemma cw_signals_unlink [simp]: "cw_signals (unlink p w) = cw_signals w"
  by (simp add: unlink_def)

lemma live_pid_unlink:
  assumes "fs_wf (ci_fs w)" "live_pid alive w p = None"
  shows "live_pid alive (unlink p w) = live_pid alive w"
proof
  fix q
  have "recorded_pid (ci_fs (unlink p w)) q = recorded_pid (ci_fs w) q"
    if "q \<noteq> p"
    using that assms(1)
    by (auto simp: unlink_def fs_remove_file_def recorded_pid_def fs_read_to_string_def fs_read_def
        fs_is_dir_def fs_wf_def dm_remove_get)
  moreover have "recorded_pid (ci_fs (unlink p w)) p = None" if "ci_fs (unlink p w) \<noteq> ci_fs w"
    using that assms(1)
    by (auto simp: unlink_def fs_remove_file_def recorded_pid_def fs_read_to_string_def fs_read_def
        fs_is_dir_def fs_wf_def dm_remove_get split: if_splits)
  ultimately show "live_pid alive (unlink p w) q = live_pid alive w q"
    using assms(2) by (cases "q = p"; cases "ci_fs (unlink p w) = ci_fs w")
      (auto simp: live_pid_def is_pid_alive_def cw_signals_unlink split: option.split)
qed

text \<open>Reading a pid file answers with the live process, sends no signal, and may remove this file if
  its process is gone.\<close>

lemma read_pid_cases:
  assumes "read_pid alive e name w = (r, w')"
  obtains
    (ok) dir where "r = Inr (live_pid alive w (pid_file dir name))" "tunnels_path e = Some dir"
      "loses_files (ci_fs w) (ci_fs w')" "cw_signals w' = cw_signals w"
      "live_pid alive w (pid_file dir name) \<noteq> None \<longrightarrow> fs_files (ci_fs w') = fs_files (ci_fs w)"
      "fs_wf (ci_fs w) \<longrightarrow> live_pid alive w' = live_pid alive w"
  | (failed) err where "r = Inl err" "loses_files (ci_fs w) (ci_fs w')" "cw_signals w' = cw_signals w"
proof -
  obtain r1 w1 where t: "pid_path e name w = (r1, w1)" by (cases "pid_path e name w")
  from t show thesis
  proof (cases rule: pid_path_cases)
    case (ok dir)
    let ?p = "pid_file dir name"
    have sig: "cw_signals w1 = cw_signals w"
      using ok(6) by (metis cli_world.select_convs(1) cli_world.surjective client_io.update_convs(1))
    note D = read_pid_def t ok(1) in_cli_def Let_def
    have live1: "live_pid alive w1 = live_pid alive w"
      using sig ok(8) by (simp add: live_pid_def is_pid_alive_def fun_eq_iff split: option.split)
    show thesis
    proof (cases "fs_read_to_string (ci_fs w1) ?p")
      case (Inl err)
      then have w': "w' = w1" and "r = Inr None \<or> (\<exists>err. r = Inl err)"
        and none: "live_pid alive w ?p = None"
        using assms ok(3) by (auto simp: D recorded_pid_def live_pid_def split: if_splits)
      then consider "r = Inr (live_pid alive w ?p)" | err where "r = Inl err" by auto
      then show thesis
        by cases (rule that(1) [OF _ ok(2)], use none ok(4) sig w' live1 in auto,
          rule that(2), use ok(4) sig w' in auto)
    next
      case (Inr c)
      then have ex: "fs_exists (ci_fs w1) ?p" using fs_read_exists by blast
      have rec: "recorded_pid (ci_fs w) ?p = (if parse_pid c = 0 then None else Some (parse_pid c))"
        using Inr ok(3) by (simp add: recorded_pid_def)
      have "r = Inr (live_pid alive w ?p)" "w' = w1 \<or> w' = unlink ?p w1 \<and> live_pid alive w ?p = None"
        using assms Inr ex rec sig by (auto simp: D live_pid_def is_pid_alive_def split: if_splits)
      moreover have "loses_files (ci_fs w) (ci_fs (unlink ?p w1))"
        using loses_files_trans [OF ok(4) loses_files_remove] by (simp add: unlink_def)
      moreover have "live_pid alive (unlink ?p w1) = live_pid alive w"
        if "live_pid alive w ?p = None" "fs_wf (ci_fs w)"
        using live_pid_unlink [of w1 alive ?p] that ok(5) live1 by (simp add: fs_wf_def)
      ultimately show thesis using that(1) ok sig live1 by (auto simp: unlink_def)
    qed
  next
    case (failed err)
    then show thesis using assms t that(2) by (auto simp: read_pid_def)
  qed
qed

section \<open>Listing and stopping\<close>

text \<open>What one directory entry contributes to the list.\<close>

definition entry_pids :: "(string \<Rightarrow> u32 option) \<Rightarrow> string \<Rightarrow> string \<Rightarrow> (string \<times> u32) list" where
  "entry_pids live dir entry =
     (case strip_suffix ''.pid'' (from_utf8_lossy (as_bytes entry)) of
        None \<Rightarrow> []
      | Some stem \<Rightarrow> (case live (pid_file dir stem) of Some pid \<Rightarrow> [(stem, pid)] | None \<Rightarrow> []))"

lemma collect_pids_result:
  assumes "collect_pids alive e entries out w = (r, w')" "fs_wf (ci_fs w)" "tunnels_path e = Some dir"
  shows "loses_files (ci_fs w) (ci_fs w') \<and> cw_signals w' = cw_signals w
    \<and> (\<forall>l. r = Inr l \<longrightarrow> l = out @ concat (map (entry_pids (live_pid alive w) dir) entries))"
  using assms(1,2)
proof (induction entries arbitrary: out w)
  case (Cons entry entries)
  show ?case
  proof (cases "strip_suffix ''.pid'' (from_utf8_lossy (as_bytes entry))")
    case None
    then show ?thesis using Cons by (simp add: entry_pids_def)
  next
    case (Some stem)
    obtain r1 w1 where rd: "read_pid alive e stem w = (r1, w1)" by (cases "read_pid alive e stem w")
    from rd show ?thesis
    proof (cases rule: read_pid_cases)
      case (ok d)
      then have d: "d = dir" using assms(3) by simp
      define out1 where "out1 = out @ entry_pids (live_pid alive w) dir entry"
      have "out1 = (case live_pid alive w (pid_file dir stem) of
          Some pid \<Rightarrow> out @ [(stem, pid)] | None \<Rightarrow> out)"
        using Some by (simp add: out1_def entry_pids_def split: option.split)
      then have "collect_pids alive e entries out1 w1 = (r, w')"
        using Cons.prems(1) Some rd ok(1) d by simp
      moreover have "fs_wf (ci_fs w1)" using ok(3) Cons.prems(2) by (simp add: loses_files_def)
      ultimately show ?thesis
        using Cons.IH [of out1 w1] ok(3-6) Cons.prems(2) loses_files_trans
        by (auto simp: out1_def)
    next
      case (failed err)
      then show ?thesis using Cons.prems Some rd by auto
    qed
  qed
qed auto

lemma list_running_cases:
  assumes "list_running_tunnels alive e w = (r, w')" "fs_wf (ci_fs w)"
  shows "loses_files (ci_fs w) (ci_fs w')" "cw_signals w' = cw_signals w"
    "r = Inr l \<Longrightarrow> \<exists>dir entries s1. tunnels_path e = Some dir \<and> fs_read_dir s1 dir = Inr entries
       \<and> fs_files s1 = fs_files (ci_fs w)
       \<and> l = sort_key fst (concat (map (entry_pids (live_pid alive w) dir) entries))"
proof -
  obtain r1 w1 where t: "tunnels_dir e w = (r1, w1)" by (cases "tunnels_dir e w")
  have "loses_files (ci_fs w) (ci_fs w') \<and> cw_signals w' = cw_signals w
    \<and> (\<forall>l. r = Inr l \<longrightarrow> (\<exists>dir entries s1. tunnels_path e = Some dir \<and> fs_read_dir s1 dir = Inr entries
       \<and> fs_files s1 = fs_files (ci_fs w)
       \<and> l = sort_key fst (concat (map (entry_pids (live_pid alive w) dir) entries))))"
    using t
  proof (cases rule: tunnels_dir_cases)
    case (failed err)
    then show ?thesis using assms t by (auto simp: list_running_tunnels_def)
  next
    case (ok dir)
    have sig: "cw_signals w1 = cw_signals w"
      using ok(4) by (metis cli_world.select_convs(1) cli_world.surjective client_io.update_convs(1))
    have lf: "loses_files (ci_fs w) (ci_fs w1)" using ok(3) loses_files_dir by auto
    have live: "live_pid alive w1 = live_pid alive w"
      using sig ok(6) by (simp add: live_pid_def is_pid_alive_def fun_eq_iff split: option.split)
    show ?thesis
    proof (cases "fs_read_dir (ci_fs w1) dir")
      case (Inl err)
      then show ?thesis
        using assms(1) t ok(1) sig lf by (auto simp: list_running_tunnels_def in_cli_def)
    next
      case (Inr entries)
      obtain r2 w2 where c: "collect_pids alive e entries [] w1 = (r2, w2)"
        by (cases "collect_pids alive e entries [] w1")
      have "fs_wf (ci_fs w1)" using lf assms(2) by (simp add: loses_files_def)
      note C = collect_pids_result [OF c this ok(2)]
      have "w' = w2" "r = map_sum id (sort_key fst) r2"
        using assms(1) t ok(1) Inr c
        by (cases r2; auto simp: list_running_tunnels_def in_cli_def)+
      moreover have "fs_files (ci_fs w1) = fs_files (ci_fs w)" using ok(3) by auto
      ultimately show ?thesis
        using C loses_files_trans [OF lf] sig live Inr ok(2) by (cases r2) auto
    qed
  qed
  then show "loses_files (ci_fs w) (ci_fs w')" "cw_signals w' = cw_signals w"
    "r = Inr l \<Longrightarrow> \<exists>dir entries s1. tunnels_path e = Some dir \<and> fs_read_dir s1 dir = Inr entries
       \<and> fs_files s1 = fs_files (ci_fs w)
       \<and> l = sort_key fst (concat (map (entry_pids (live_pid alive w) dir) entries))"
    by blast+
qed

text \<open>Stopping one tunnel: at most one signal, to the live process its pid file records.\<close>

definition signals_recorded :: "string option \<Rightarrow> fs \<Rightarrow> (int \<times> nat) list \<Rightarrow> bool" where
  "signals_recorded dir s sigs \<longleftrightarrow> (\<forall>(i, n) \<in> set sigs. n = SIGTERM
     \<and> (\<exists>d name pid. dir = Some d \<and> recorded_pid s (pid_file d name) = Some pid \<and> i = sint pid))"

lemma stop_one_effect:
  assumes "stop_one alive e name w = (r, w')" "fs_wf (ci_fs w)"
  shows "loses_files (ci_fs w) (ci_fs w')
    \<and> (\<exists>sigs. cw_signals w' = cw_signals w @ sigs \<and> signals_recorded (tunnels_path e) (ci_fs w) sigs)"
proof -
  obtain r1 w1 where rd: "read_pid alive e name w = (r1, w1)" by (cases "read_pid alive e name w")
  from rd show ?thesis
  proof (cases rule: read_pid_cases)
    case (failed err)
    then show ?thesis
      using assms rd by (auto simp: stop_one_def signals_recorded_def intro: exI [of _ "[]"])
  next
    case (ok dir)
    show ?thesis
    proof (cases "live_pid alive w (pid_file dir name)")
      case None
      then show ?thesis
        using assms rd ok by (auto simp: stop_one_def say_def signals_recorded_def intro: exI [of _ "[]"])
    next
      case (Some pid)
      let ?w2 = "w1\<lparr>cw_signals := cw_signals w1 @ [(sint pid, SIGTERM)]\<rparr>"
      obtain r3 w3 where p: "pid_path e name ?w2 = (r3, w3)" by (cases "pid_path e name ?w2")
      have rec: "recorded_pid (ci_fs w) (pid_file dir name) = Some pid"
        using Some by (auto simp: live_pid_def split: option.splits if_splits)
      then have sr: "signals_recorded (tunnels_path e) (ci_fs w) [(sint pid, SIGTERM)]"
        using ok(2) by (auto simp: signals_recorded_def)
      from p have "loses_files (ci_fs w1) (ci_fs w3) \<and> cw_signals w3 = cw_signals ?w2"
      proof (cases rule: pid_path_cases)
        case (ok d)
        then show ?thesis
          by (metis cli_world.select_convs(1) cli_world.surjective client_io.update_convs(1)
              client_io.select_convs(1) cli_world.update_convs(1))
      qed simp
      moreover have "w' = w3 \<or> (\<exists>path l. w' = say l (unlink path w3))"
        using assms(1) rd ok(1) Some p
        by (cases r3) (auto simp: stop_one_def)
      moreover have "loses_files (ci_fs w3) (ci_fs (unlink path w3))" for path
        using loses_files_remove by (simp add: unlink_def)
      ultimately show ?thesis
        using ok(3,4) sr loses_files_trans by (fastforce simp: say_def)
    qed
  qed
qed

lemma signals_recorded_append [simp]:
  "signals_recorded d s (xs @ ys) \<longleftrightarrow> signals_recorded d s xs \<and> signals_recorded d s ys"
  by (simp only: signals_recorded_def set_append ball_Un)

lemma signals_recorded_mono:
  "loses_files s s' \<Longrightarrow> fs_wf s \<Longrightarrow> signals_recorded d s' sigs \<Longrightarrow> signals_recorded d s sigs"
  unfolding signals_recorded_def using recorded_pid_mono by fast

lemma stop_each_effect:
  assumes "stop_each alive e names w = (r, w')" "fs_wf (ci_fs w)"
  shows "\<exists>sigs. cw_signals w' = cw_signals w @ sigs \<and> signals_recorded (tunnels_path e) (ci_fs w) sigs"
  using assms
proof (induction names arbitrary: w)
  case Nil
  then show ?case by (auto simp: signals_recorded_def intro: exI [of _ "[]"])
next
  case (Cons name names)
  obtain r1 w1 where s1: "stop_one alive e name w = (r1, w1)" by (cases "stop_one alive e name w")
  note E = stop_one_effect [OF s1 Cons.prems(2)]
  then obtain sigs where sigs: "cw_signals w1 = cw_signals w @ sigs"
    "signals_recorded (tunnels_path e) (ci_fs w) sigs" by blast
  show ?case
  proof (cases r1)
    case (Inl err)
    then show ?thesis using Cons.prems(1) s1 sigs by auto
  next
    case (Inr u)
    then have "stop_each alive e names w1 = (r, w')" using Cons.prems(1) s1 by simp
    moreover have "fs_wf (ci_fs w1)" using E Cons.prems(2) by (simp add: loses_files_def)
    ultimately obtain more where "cw_signals w' = cw_signals w1 @ more"
      "signals_recorded (tunnels_path e) (ci_fs w1) more"
      using Cons.IH by blast
    then show ?thesis
      using sigs signals_recorded_mono [of "ci_fs w" "ci_fs w1"] E Cons.prems(2)
      by (auto intro!: exI [of _ "sigs @ more"])
  qed
qed


text \<open>The list of running tunnels is sorted by name and complete: for every name that can be a
  file name it has exactly the process its pid file records, if that process is there.\<close>

theorem list_running_exact:
  assumes "list_running_tunnels alive e w = (Inr l, w')" and "fs_wf (ci_fs w)"
  shows "sorted (map fst l)
    \<and> (\<exists>dir. tunnels_path e = Some dir
        \<and> (\<forall>name pid. is_str name \<and> CHR ''/'' \<notin> set name \<longrightarrow>
             (name, pid) \<in> set l \<longleftrightarrow> live_pid alive w (pid_file dir name) = Some pid))"
proof -
  obtain dir entries s1 where dir: "tunnels_path e = Some dir" "fs_read_dir s1 dir = Inr entries"
    "fs_files s1 = fs_files (ci_fs w)"
    and l: "l = sort_key fst (concat (map (entry_pids (live_pid alive w) dir) entries))"
    using list_running_cases(3) [OF assms refl] by blast
  have "(name, pid) \<in> set l \<longleftrightarrow> live_pid alive w (pid_file dir name) = Some pid"
    if name: "is_str name" "CHR ''/'' \<notin> set name" for name pid
  proof
    assume "(name, pid) \<in> set l"
    then show "live_pid alive w (pid_file dir name) = Some pid"
      by (auto simp: l entry_pids_def split: option.splits)
  next
    assume live: "live_pid alive w (pid_file dir name) = Some pid"
    then have "fs_content (ci_fs w) (pid_file dir name) \<noteq> None"
      by (auto simp: live_pid_def recorded_pid_def fs_read_to_string_def fs_read_def
          split: option.splits if_splits sum.splits)
    then have "pid_file dir name \<in> fst ` set (fs_files s1)"
      using dir(3) by (simp add: dm_get_def map_of_eq_None_iff)
    moreover have "dir_name dir (pid_file dir name) = Some (name @ ''.pid'')"
      using name(2) by (auto simp: dir_name_eq_Some pid_file_def)
    ultimately have "name @ ''.pid'' \<in> set entries"
      using dir(2) by (force simp: fs_read_dir_def map_filter_def split: if_splits)
    moreover have "is_str (name @ ''.pid'')"
      by (rule is_str_append [OF name(1)]) (rule ascii_is_str, simp)
    ultimately show "(name, pid) \<in> set l"
      using live by (force simp: l entry_pids_def from_utf8_lossy_as_bytes split: option.split)
  qed
  then show ?thesis using dir(1) by (auto simp: l)
qed

lemma tunnels_dir_exists:
  assumes "tunnels_path e = Some dir" "fs_is_dir (ci_fs w) dir"
  shows "tunnels_dir e w = (Inr dir, w)"
  using assms
  by (auto simp: tunnels_dir_def tunnels_path_def client_config_dir_def in_cli_def make_dirs_def
      fs_create_dir_all_def Let_def)

lemma digit_not_whitespace: "is_ascii_digit c \<Longrightarrow> \<not> is_whitespace (of_char c)"
  by (auto simp: is_ascii_digit_def is_whitespace_def)

lemma trim_number: "trim (show_nat n @ [CHR 0x0A]) = show_nat n"
proof -
  let ?b = "str_bytes (show_nat n)"
  have "ascii (show_nat n @ [CHR 0x0A])" using ascii_show_nat by simp
  then have "chars (show_nat n @ [CHR 0x0A]) = ?b @ [10]" by (simp add: chars_ascii str_bytes_def)
  moreover have "trim_list is_whitespace (?b @ [10]) = trim_list is_whitespace ?b"
    by (rule trim_list_drop_suffix) (simp add: is_whitespace_def)
  moreover have "trim_list is_whitespace ?b = ?b"
    using show_nat_digits [of _ n] digit_not_whitespace
    by (intro trim_list_id) (simp_all add: str_bytes_def hd_map last_map)
  moreover have "of_chars ?b = show_nat n"
    using of_chars_chars [OF ascii_is_str [OF ascii_show_nat]] by (simp add: chars_ascii ascii_show_nat)
  ultimately show ?thesis by (simp add: trim_def)
qed

lemma parse_pid_text: "parse_pid (show_nat (unat pid) @ [CHR 0x0A]) = pid"
  using unat_bound32 [of pid]
  by (simp add: parse_pid_def trim_number parse_u32_def parse_unsigned_show_nat)

lemma is_str_pid_text: "is_str (show_nat n @ [CHR 0x0A])"
  by (rule ascii_is_str) (simp add: ascii_show_nat)

text \<open>A pid that was old is read back: the next reader gets exactly this process if it is
  there, and otherwise nothing, and the stale file goes.\<close>

theorem pid_roundtrip:
  assumes "write_pid e name pid w = (Inr (), w1)" and "fs_wf (ci_fs w)" and "pid \<noteq> 0"
  shows "\<exists>d. tunnels_path e = Some d \<and> read_pid alive e name w1 =
     (if is_pid_alive alive w1 pid then (Inr (Some pid), w1)
      else (Inr None, unlink (pid_file d name) w1))"
proof -
  obtain r0 w0 where p: "pid_path e name w = (r0, w0)" by (cases "pid_path e name w")
  from p show ?thesis
  proof (cases rule: pid_path_cases)
    case (failed err)
    then show ?thesis using assms(1) p by (simp add: write_pid_def)
  next
    case (ok d)
    let ?p = "pid_file d name" and ?c = "show_nat (unat pid) @ [CHR 0x0A]"
    have wf: "fs_wf (ci_fs w0)" using ok(4) assms(2) by (simp add: loses_files_def)
    have wr: "write_file ?p ?c w0 = (Inr (), w1)"
      using assms(1) p ok(1) by (auto simp: write_pid_def in_cli_def map_err_def split: sum.splits
          intro: prod_eqI)
    then have dirs: "fs_is_dir (ci_fs w1) d"
      using ok(7) by (auto simp: write_file_def fs_write_def fs_is_dir_def split: prod.splits
          sum.splits if_splits)
    have "fs_read_to_string (ci_fs w1) ?p = Inr ?c" "fs_exists (ci_fs w1) ?p"
      using write_file_content [OF wr wf] is_str_pid_text by (simp_all add: fs_read_to_string_def)
    moreover have "pid_path e name w1 = (Inr ?p, w1)"
      using tunnels_dir_exists [OF ok(2) dirs] by (simp add: pid_path_def pid_file_def)
    ultimately show ?thesis
      using ok(2) assms(3) by (simp add: read_pid_def in_cli_def Let_def parse_pid_text)
  qed
qed

lemma unlink_gone:
  assumes "fs_wf (ci_fs w)" "\<not> fs_is_dir (ci_fs w) p"
  shows "fs_content (ci_fs (unlink p w)) p = None \<or> p \<in> set (fs_denied (ci_fs (unlink p w)))"
  using assms
  by (auto simp: unlink_def fs_remove_file_def fs_is_file_def fs_wf_def dm_remove_get)

lemma live_pid_readable: "live_pid alive w p = Some pid \<Longrightarrow> \<exists>c. fs_read_to_string (ci_fs w) p = Inr c"
  by (auto simp: live_pid_def recorded_pid_def split: option.splits sum.splits)

lemma fs_read_not_dir: "fs_read_to_string s p = Inr c \<Longrightarrow> \<not> fs_is_dir s p"
  by (auto simp: fs_read_to_string_def fs_read_def)

text \<open>Stopping a running tunnel sends its process one termination signal and forgets it: the
  pid file is gone, unless the system refuses to remove it.\<close>

theorem stop_running_tunnel:
  assumes "cmd_stop alive e (Some name) w = (Inr (), w')" and "fs_wf (ci_fs w)"
    and "tunnels_path e = Some d" and "live_pid alive w (pid_file d name) = Some pid"
  shows "cw_signals w' = cw_signals w @ [(sint pid, SIGTERM)]
    \<and> (fs_content (ci_fs w') (pid_file d name) = None \<or> pid_file d name \<in> set (fs_denied (ci_fs w')))"
proof -
  let ?p = "pid_file d name"
  have st: "stop_one alive e name w = (Inr (), w')"
    using assms(1) by (auto simp: cmd_stop_def try_then_eq)
  obtain r1 w1 where rd: "read_pid alive e name w = (r1, w1)" by (cases "read_pid alive e name w")
  from rd show ?thesis
  proof (cases rule: read_pid_cases)
    case (failed err)
    then show ?thesis using st rd by (simp add: stop_one_def)
  next
    case (ok dir)
    then have dir: "dir = d" using assms(3) by simp
    let ?w2 = "w1\<lparr>cw_signals := cw_signals w1 @ [(sint pid, SIGTERM)]\<rparr>"
    obtain r3 w3 where p: "pid_path e name ?w2 = (r3, w3)" by (cases "pid_path e name ?w2")
    from p show ?thesis
    proof (cases rule: pid_path_cases)
      case (failed err)
      then show ?thesis using st rd ok(1) assms(4) dir p by (simp add: stop_one_def)
    next
      case p3: (ok d3)
      have d3: "d3 = d" using p3(2) assms(3) by simp
      obtain l where w': "w' = say l (unlink ?p w3)"
        using st rd ok(1) assms(4) dir p p3(1) d3 by (auto simp: stop_one_def)
      have "cw_signals w3 = cw_signals ?w2"
        using p3(6) by (metis cli_world.select_convs(1) cli_world.surjective client_io.update_convs(1))
      then have "cw_signals w' = cw_signals w @ [(sint pid, SIGTERM)]"
        using ok(4) by (simp add: w' say_def)
      moreover have "live_pid alive w1 ?p = Some pid" using ok(6) assms(2,4) by simp
      then have "\<not> fs_is_dir (ci_fs w3) ?p"
        using p3(3) d3 live_pid_readable fs_read_not_dir by fastforce
      moreover have "fs_wf (ci_fs w3)"
        using ok(3) p3(4) assms(2) by (simp add: loses_files_def)
      ultimately show ?thesis using unlink_gone by (simp add: w' say_def)
    qed
  qed
qed

section \<open>Waiting for the child\<close>

definition log_text :: "string list \<Rightarrow> string" where
  "log_text ls = concat (map (\<lambda>l. l @ [CHR 0x0A]) ls)"

text \<open>What the parent sees of a child that lives and writes whole lines, so many in each turn.\<close>

fun log_views :: "string list \<Rightarrow> string list list \<Rightarrow> observation list" where
  "log_views old [] = []"
| "log_views old (c # cs) =
     \<lparr>ob_alive = True, ob_log = Some (log_text (old @ c))\<rparr> # log_views (old @ c) cs"

lemma log_text_append [simp]: "log_text (xs @ ys) = log_text xs @ log_text ys"
  by (simp add: log_text_def)

lemma find_forwarding_append:
  "find_forwarding (xs @ ys) =
     (case find_forwarding xs of Some f \<Rightarrow> Some f | None \<Rightarrow> find_forwarding ys)"
  by (induction xs) (auto split: option.split)

definition whole_line :: "string \<Rightarrow> bool" where
  "whole_line l \<longleftrightarrow> CHR 0x0A \<notin> set l \<and> is_str l"

lemma str_lines_log_text: "\<forall>l \<in> set ls. whole_line l \<Longrightarrow> str_lines (log_text ls) = map strip_cr ls"
  using split_on_concat [of ls "CHR 0x0A" "[]"]
  by (simp add: str_lines_def log_text_def whole_line_def butlast_append)

lemma is_str_log_text: "\<forall>l \<in> set ls. whole_line l \<Longrightarrow> is_str (log_text ls)"
proof -
  assume *: "\<forall>l \<in> set ls. whole_line l"
  have "is_str [CHR 0x0A]" by (rule ascii_is_str) simp
  with * show ?thesis
    unfolding log_text_def by (intro is_str_concat) (auto simp: list_all_iff whole_line_def is_str_append)
qed

text \<open>C33: The parent of a background tunnel reports what its child reported: if the child lives and
  writes whole lines, however they are spread over the turns of the loop, the parent finds the first
  line that announces the route, without its prefix, and finds nothing only if there is none.\<close>

theorem parent_sees_forwarding:
  assumes "\<forall>l \<in> set (old @ concat chunks). CHR 0x0A \<notin> set l \<and> is_str l"
  shows "wait_forwarding (log_views old chunks) (length (log_text old))
    = Inr (find_forwarding (map strip_cr (concat chunks)))"
  using assms
proof (induction chunks arbitrary: old)
  case (Cons c cs)
  then have c: "\<forall>l \<in> set c. whole_line l" by (auto simp: whole_line_def)
  have "wait_forwarding (log_views (old @ c) cs) (length (log_text (old @ c)))
      = Inr (find_forwarding (map strip_cr (concat cs)))"
    using Cons.prems by (intro Cons.IH) auto
  then show ?case
    using is_str_log_text [OF c] str_lines_log_text [OF c]
    by (simp add: read_from_def find_forwarding_append split: option.split)
qed simp

theorem parent_sees_forwarding_witness:
  "wait_forwarding (log_views [] [[''zotunnel v1''], [], [[], ''Forwarding  https://a.t.io -> http://localhost:80'']]) 0
     = Inr (Some ''https://a.t.io -> http://localhost:80'')"
proof -
  have "is_str l" if "l \<in> set ([] @ concat [[''zotunnel v1''], [], [[], ''Forwarding  https://a.t.io -> http://localhost:80'']])" for l
    using that by (intro ascii_is_str) auto
  then show ?thesis
    using parent_sees_forwarding [of "[]" "[[''zotunnel v1''], [], [[], ''Forwarding  https://a.t.io -> http://localhost:80'']]"]
    by (simp add: forwarding_prefix_def strip_cr_def strip_suffix_def log_text_def)
qed

section \<open>Witnesses\<close>

text \<open>One running tunnel \<open>app\<close>, process 42.\<close>

definition demo_world :: cli_world where
  "demo_world = \<lparr>ci_fs = \<lparr>fs_files = [(''/h/.zotunnel/tunnels/app.pid'', ''42'' @ [CHR 0x0A])],
       fs_dirs = [''/h'', ''/h/.zotunnel'', ''/h/.zotunnel/tunnels''], fs_denied = [], fs_writes = []\<rparr>,
     ci_log = [], cw_signals = [], cw_out = []\<rparr>"

abbreviation demo_alive :: "(int \<times> nat) list \<Rightarrow> int \<Rightarrow> bool" where
  "demo_alive sigs i \<equiv> i = 42 \<and> sigs = []"

lemma demo_wf: "fs_wf (ci_fs demo_world)"
  by (simp add: fs_wf_def dm_wf_def demo_world_def)

lemma demo_tunnels: "tunnels_path demo_env = Some ''/h/.zotunnel/tunnels''"
  "tunnels_dir demo_env demo_world = (Inr ''/h/.zotunnel/tunnels'', demo_world)"
proof -
  show p: "tunnels_path demo_env = Some ''/h/.zotunnel/tunnels''"
    by (simp add: tunnels_path_def env_var_def dm_get_def path_join_def starts_with_iff)
  show "tunnels_dir demo_env demo_world = (Inr ''/h/.zotunnel/tunnels'', demo_world)"
    by (rule tunnels_dir_exists [OF p]) (simp add: demo_world_def fs_is_dir_def)
qed

lemma demo_pid_file: "pid_file ''/h/.zotunnel/tunnels'' ''app'' = ''/h/.zotunnel/tunnels/app.pid''"
  by (simp add: pid_file_def path_join_def starts_with_iff)

lemma demo_pid_text: "''42'' @ [CHR 0x0A] = show_nat (unat (42 :: u32)) @ [CHR 0x0A]"
  by (simp add: show_nat.simps digit_char_def) code_simp

lemma demo_signals: "cw_signals demo_world = []"
  by (simp add: demo_world_def)

lemma demo_pid_read: "fs_read_to_string (ci_fs demo_world) ''/h/.zotunnel/tunnels/app.pid'' = Inr (''42'' @ [CHR 0x0A])"
  using is_str_pid_text [of "unat (42 :: u32)"]
  by (simp add: fs_read_to_string_def fs_read_def demo_world_def fs_is_dir_def dm_get_def
      flip: demo_pid_text)

lemma demo_live: "live_pid demo_alive demo_world ''/h/.zotunnel/tunnels/app.pid'' = Some 42"
proof -
  have "parse_pid (''42'' @ [CHR 0x0A]) = 42" unfolding demo_pid_text by (rule parse_pid_text)
  then show ?thesis
    by (simp add: live_pid_def recorded_pid_def demo_pid_read is_pid_alive_def demo_signals)
qed

theorem pid_roundtrip_witness:
  "\<exists>w1. read_pid demo_alive demo_env ''app'' w1 = (Inr (Some 42), w1)"
proof -
  obtain w1 where w1: "write_pid demo_env ''app'' 42 demo_world = (Inr (), w1)" "cw_signals w1 = []"
    using demo_tunnels(2)
    by (simp add: write_pid_def pid_path_def in_cli_def write_file_def fs_write_def path_join_def
        starts_with_iff parent_dir_def fs_is_dir_def demo_world_def)
  from pid_roundtrip [OF w1(1) demo_wf, of demo_alive] show ?thesis
    using w1(2) by (auto simp: is_pid_alive_def)
qed

lemma demo_read_pid: "read_pid demo_alive demo_env ''app'' demo_world = (Inr (Some 42), demo_world)"
proof -
  have ex: "fs_exists (ci_fs demo_world) ''/h/.zotunnel/tunnels/app.pid''" using fs_read_exists demo_pid_read by blast
  have parse: "parse_pid (''42'' @ [CHR 0x0A]) = 42" unfolding demo_pid_text by (rule parse_pid_text)
  have p: "pid_path demo_env ''app'' demo_world = (Inr ''/h/.zotunnel/tunnels/app.pid'', demo_world)"
    using demo_tunnels(2) demo_pid_file by (simp add: pid_path_def pid_file_def)
  show ?thesis
    using ex demo_pid_read parse by (simp add: read_pid_def p in_cli_def is_pid_alive_def demo_signals Let_def)
qed

lemma demo_stop:
  obtains w' where "cmd_stop demo_alive demo_env (Some ''app'') demo_world = (Inr (), w')"
proof -
  obtain r w' where st: "cmd_stop demo_alive demo_env (Some ''app'') demo_world = (r, w')"
    by (cases "cmd_stop demo_alive demo_env (Some ''app'') demo_world")
  have "tunnels_dir demo_env (demo_world\<lparr>cw_signals := [(42, SIGTERM)]\<rparr>)
      = (Inr ''/h/.zotunnel/tunnels'', demo_world\<lparr>cw_signals := [(42, SIGTERM)]\<rparr>)"
    by (rule tunnels_dir_exists [OF demo_tunnels(1)]) (simp add: demo_world_def fs_is_dir_def)
  then have "r = Inr ()"
    using st demo_read_pid by (auto simp: cmd_stop_def stop_one_def pid_path_def demo_signals)
  then show thesis using that st by simp
qed

theorem stop_running_tunnel_witness:
  "\<exists>w'. cmd_stop demo_alive demo_env (Some ''app'') demo_world = (Inr (), w')
     \<and> cw_signals w' = [(42, SIGTERM)]"
proof -
  obtain w' where st: "cmd_stop demo_alive demo_env (Some ''app'') demo_world = (Inr (), w')"
    by (rule demo_stop)
  from stop_running_tunnel [OF st demo_wf demo_tunnels(1)] demo_live demo_pid_file show ?thesis
    using st by (simp add: demo_signals)
qed


theorem list_running_exact_witness:
  "\<exists>l w'. list_running_tunnels demo_alive demo_env demo_world = (Inr l, w') \<and> (''app'', 42) \<in> set l"
proof -
  have "fs_read_dir (ci_fs demo_world) ''/h/.zotunnel/tunnels'' = Inr [''app.pid'']"
    by (simp add: fs_read_dir_def demo_world_def fs_is_dir_def map_filter_def dir_name_def path_join_def
        starts_with_iff)
  moreover have "from_utf8_lossy (as_bytes ''app.pid'') = ''app.pid''"
    by (intro from_utf8_lossy_as_bytes ascii_is_str) simp
  moreover have "strip_suffix ''.pid'' ''app.pid'' = Some ''app''" by (simp add: strip_suffix_def)
  ultimately have "list_running_tunnels demo_alive demo_env demo_world = (Inr [(''app'', 42)], demo_world)"
    using demo_tunnels(2) demo_read_pid by (simp add: list_running_tunnels_def in_cli_def)
  moreover from list_running_exact [OF this demo_wf] have "sorted (map fst [(''app'', 42 :: u32)])" by blast
  ultimately show ?thesis by auto
qed

end
