(* ===== verification/Self_Update.thy ===== *)
theory Self_Update
  imports File_System Server_Config
begin

text \<open>
  Upgrade, uninstall and the systemd service, \<open>zo-tunnel-protocol/src/self_update.rs\<close>.

  The operating system is a parameter: the path of the running program, the platform, the clock,
  the line typed at the prompt, and what an external command (\<open>curl\<close>, \<open>tar\<close>,
  \<open>sudo\<close>, \<open>systemctl\<close>) answers and does to the file system. The world is the file
  system and the list of the commands run. Console output is left out.
\<close>

section \<open>The operating system\<close>

text \<open>The outcome of a command: it could not be run, or it ended, with success or not, and what it
  printed on the two channels.\<close>

datatype cmd_result = CannotRun | Exited bool bytes bytes

record os =
  os_env :: environment
  os_exe :: "string option"
  os_name :: string
  os_arch :: string
  os_temp_dir :: string
  os_millis :: nat
  os_answer :: "string option"
  os_run :: "string list \<Rightarrow> string \<Rightarrow> fs \<Rightarrow> cmd_result \<times> fs"

record su_world =
  su_fs :: fs
  su_cmds :: "string list list"

datatype update_error =
  HomeUnset
| UnsupportedOs string
| UnsupportedArch string
| CurlNotRun
| FetchFailed string
| NoReleaseTag
| DownloadFailed
| ExtractFailed
| NotInTarball
| CommandNotRun
| SudoFailed
| ServiceFailed
| FileError io_error
| PathNotUtf8
| StdinFailed

definition run_cmd :: "os \<Rightarrow> string list \<Rightarrow> string \<Rightarrow> su_world \<Rightarrow> cmd_result \<times> su_world" where
  "run_cmd os argv inp w =
     (case os_run os argv inp (su_fs w) of
        (r, s) \<Rightarrow> (r, \<lparr>su_fs = s, su_cmds = su_cmds w @ [argv]\<rparr>))"

text \<open>\<open>status()?\<close> followed by the check of \<open>success()\<close>.\<close>

definition run_ok :: "os \<Rightarrow> string list \<Rightarrow> string \<Rightarrow> update_error \<Rightarrow> update_error \<Rightarrow> su_world
    \<Rightarrow> (update_error, unit) res \<times> su_world" where
  "run_ok os argv inp not_run failed w =
     (case run_cmd os argv inp w of
        (CannotRun, w1) \<Rightarrow> (Inl not_run, w1)
      | (Exited success _ _, w1) \<Rightarrow> (if success then Inr () else Inl failed, w1))"

definition su_io :: "(fs \<Rightarrow> (io_error, 'a) res \<times> fs) \<Rightarrow> su_world \<Rightarrow> (io_error, 'a) res \<times> su_world" where
  "su_io op w = (case op (su_fs w) of (r, s) \<Rightarrow> (r, w\<lparr>su_fs := s\<rparr>))"

text \<open>\<open>to_str().unwrap()\<close> panics on a path that is not text.\<close>

definition path_arg :: "string \<Rightarrow> (update_error, string) res" where
  "path_arg p = (if is_str p then Inr p else Inl PathNotUtf8)"

section \<open>File helpers\<close>

definition fs_copy :: "string \<Rightarrow> string \<Rightarrow> fs \<Rightarrow> (io_error, unit) res \<times> fs" where
  "fs_copy src dst s = (case fs_read s src of Inl e \<Rightarrow> (Inl e, s) | Inr c \<Rightarrow> fs_write dst c s)"

text \<open>\<open>remove_dir_all\<close>; that it may fail half-way is left out.\<close>

definition below :: "string \<Rightarrow> string \<Rightarrow> bool" where
  "below d p \<longleftrightarrow> starts_with (path_join d []) p"

definition fs_remove_dir_all :: "string \<Rightarrow> fs \<Rightarrow> (io_error, unit) res \<times> fs" where
  "fs_remove_dir_all d s =
     (if fs_is_dir s d then
        (if d \<in> set (fs_denied s) then (Inl PermissionDenied, s)
         else (Inr (), s\<lparr>fs_files := filter (\<lambda>(p, c). \<not> below d p) (fs_files s),
                         fs_dirs := filter (\<lambda>p. p \<noteq> d \<and> \<not> below d p) (fs_dirs s)\<rparr>))
      else (Inl (if fs_is_file s d then OtherIo else NotFound), s))"

definition remove_with_sudo :: "os \<Rightarrow> string \<Rightarrow> su_world \<Rightarrow> (update_error, unit) res \<times> su_world" where
  "remove_with_sudo os path w =
     (case su_io (fs_remove_file path) w of
        (Inr _, w1) \<Rightarrow> (Inr (), w1)
      | (Inl PermissionDenied, w1) \<Rightarrow>
          try_then (path_arg path, w1) (\<lambda>arg w.
            run_ok os [''sudo'', ''rm'', ''-f'', arg] [] CommandNotRun SudoFailed w)
      | (Inl e, w1) \<Rightarrow> (Inl (FileError e), w1))"

definition remove_dir_with_sudo :: "os \<Rightarrow> string \<Rightarrow> su_world \<Rightarrow> (update_error, unit) res \<times> su_world"
where
  "remove_dir_with_sudo os path w =
     (case su_io (fs_remove_dir_all path) w of
        (Inr _, w1) \<Rightarrow> (Inr (), w1)
      | (Inl PermissionDenied, w1) \<Rightarrow>
          try_then (path_arg path, w1) (\<lambda>arg w.
            run_ok os [''sudo'', ''rm'', ''-rf'', arg] [] CommandNotRun SudoFailed w)
      | (Inl e, w1) \<Rightarrow> (Inl (FileError e), w1))"

text \<open>The old file is removed first; the result of that is not looked at, but for a panic.\<close>

definition clear_destination :: "os \<Rightarrow> string \<Rightarrow> su_world \<Rightarrow> (update_error, unit) res \<times> su_world" where
  "clear_destination os dst w =
     (if fs_exists (su_fs w) dst then
        (case su_io (fs_remove_file dst) w of
           (Inl PermissionDenied, w1) \<Rightarrow>
             try_then (path_arg dst, w1) (\<lambda>arg w.
               (Inr (), snd (run_cmd os [''sudo'', ''rm'', ''-f'', arg] [] w)))
         | (_, w1) \<Rightarrow> (Inr (), w1))
      else (Inr (), w))"

definition copy_with_fallback :: "os \<Rightarrow> string \<Rightarrow> string \<Rightarrow> su_world
    \<Rightarrow> (update_error, bool) res \<times> su_world" where
  "copy_with_fallback os src dst w0 =
     try_then (clear_destination os dst w0) (\<lambda>_ w.
       case su_io (fs_copy src dst) w of
         (Inr _, w1) \<Rightarrow> (Inr True, w1)
       | (Inl PermissionDenied, w1) \<Rightarrow>
           try_then (path_arg src, w1) (\<lambda>src_arg w.
           try_then (path_arg dst, w) (\<lambda>dst_arg w.
           try_then (run_ok os [''sudo'', ''cp'', src_arg, dst_arg] [] CommandNotRun SudoFailed w)
             (\<lambda>_ w. (Inr True, w))))
       | (Inl e, w1) \<Rightarrow> (Inl (FileError e), w1))"

definition set_executable :: "os \<Rightarrow> string \<Rightarrow> su_world \<Rightarrow> (update_error, unit) res \<times> su_world" where
  "set_executable os path w =
     (if fs_exists (su_fs w) path \<and> path \<notin> set (fs_denied (su_fs w)) then (Inr (), w)
      else try_then (path_arg path, w) (\<lambda>arg w.
             (Inr (), snd (run_cmd os [''sudo'', ''chmod'', ''+x'', arg] [] w))))"

definition tempdir :: "os \<Rightarrow> su_world \<Rightarrow> (update_error, string) res \<times> su_world" where
  "tempdir os w =
     (let path = path_join (os_temp_dir os) (''zo-tunnel-upgrade-'' @ show_nat (os_millis os))
      in case su_io (fs_create_dir_all path) w of
           (Inr _, w1) \<Rightarrow> (Inr path, w1)
         | (Inl e, w1) \<Rightarrow> (Inl (FileError e), w1))"

section \<open>Where things are\<close>

definition REPO :: string where
  "REPO = ''Zobite/zo-tunnel''"

definition SERVER_INSTALL_DIR :: string where
  "SERVER_INSTALL_DIR = ''/usr/local/bin''"

definition client_install_dir :: "os \<Rightarrow> (update_error, string) res" where
  "client_install_dir os =
     (case env_var (os_env os) ''HOME'' of
        None \<Rightarrow> Inl HomeUnset
      | Some home \<Rightarrow> Inr (path_join (path_join home ''.zotunnel'') ''bin''))"

text \<open>\<open>Path::parent\<close>.\<close>

definition path_parent :: "string \<Rightarrow> string option" where
  "path_parent p =
     (if p = [] \<or> p = ''/'' then None
      else if parent_dir p = [] \<and> starts_with ''/'' p then Some ''/''
      else Some (parent_dir p))"

definition default_install_dir :: "os \<Rightarrow> string \<Rightarrow> (update_error, string) res" where
  "default_install_dir os binary_name =
     (if binary_name = ''zotunnel'' \<or> contains_str ''client'' binary_name then client_install_dir os
      else Inr SERVER_INSTALL_DIR)"

definition detect_install_dir :: "os \<Rightarrow> string \<Rightarrow> (update_error, string) res" where
  "detect_install_dir os binary_name =
     (case os_exe os of
        None \<Rightarrow> default_install_dir os binary_name
      | Some exe \<Rightarrow>
          (case path_parent exe of
             None \<Rightarrow> default_install_dir os binary_name
           | Some parent \<Rightarrow>
               if \<not> contains_str ''/target/'' (from_utf8_lossy (as_bytes parent)) then Inr parent
               else default_install_dir os binary_name))"

definition detect_target :: "os \<Rightarrow> (update_error, string) res" where
  "detect_target os =
     bind_res (if os_name os = ''linux'' then Inr ''linux''
               else if os_name os = ''macos'' then Inr ''darwin''
               else Inl (UnsupportedOs (os_name os))) (\<lambda>os_label.
     bind_res (if os_arch os = ''x86_64'' then Inr ''amd64''
               else if os_arch os = ''aarch64'' then Inr ''arm64''
               else Inl (UnsupportedArch (os_arch os))) (\<lambda>arch_label.
     Inr (os_label @ ''-'' @ arch_label)))"

section \<open>Versions\<close>

text \<open>\<open>split\<close> at a text pattern, from left to right without overlap.\<close>

fun split_once :: "string \<Rightarrow> string \<Rightarrow> (string \<times> string) option" where
  "split_once p [] = (if p = [] then Some ([], []) else None)"
| "split_once p (c # cs) =
     (if starts_with p (c # cs) then Some ([], drop (length p) (c # cs))
      else (case split_once p cs of Some (a, b) \<Rightarrow> Some (c # a, b) | None \<Rightarrow> None))"

lemma split_once_shorter: "split_once p s = Some (a, b) \<Longrightarrow> p \<noteq> [] \<Longrightarrow> length b < length s"
  by (induction p s arbitrary: a b rule: split_once.induct) (auto split: if_splits option.splits)

function split_str :: "string \<Rightarrow> string \<Rightarrow> string list" where
  "split_str p s =
     (if p = [] then [s]
      else case split_once p s of None \<Rightarrow> [s] | Some (a, b) \<Rightarrow> a # split_str p b)"
  by pat_completeness auto
termination
  by (relation "measure (\<lambda>(p, s). length s)") (auto dest: split_once_shorter)

declare split_str.simps [simp del]

definition nth_opt :: "nat \<Rightarrow> 'a list \<Rightarrow> 'a option" where
  "nth_opt i xs = (if i < length xs then Some (xs ! i) else None)"

definition extract_tag :: "string \<Rightarrow> string option" where
  "extract_tag body =
     (case nth_opt 1 (split_str (dquote @ ''tag_name'' @ dquote) body) of
        None \<Rightarrow> None
      | Some s \<Rightarrow> nth_opt 1 (split_on CHR 0x22 s))"

definition fetch_latest_version :: "os \<Rightarrow> su_world \<Rightarrow> (update_error, string) res \<times> su_world" where
  "fetch_latest_version os w =
     (let url = ''https://api.github.com/repos/'' @ REPO @ ''/releases/latest''
      in case run_cmd os [''curl'', ''-sSL'', ''--max-time'', ''15'', url] [] w of
           (CannotRun, w1) \<Rightarrow> (Inl CurlNotRun, w1)
         | (Exited success out err, w1) \<Rightarrow>
             if \<not> success then (Inl (FetchFailed (from_utf8_lossy err)), w1)
             else (case extract_tag (from_utf8_lossy out) of
                     Some tag \<Rightarrow> (Inr tag, w1)
                   | None \<Rightarrow> (Inl NoReleaseTag, w1)))"

definition parse_version :: "string \<Rightarrow> nat \<times> nat \<times> nat" where
  "parse_version s0 =
     (let s = (case strip_prefix ''v'' s0 of Some r \<Rightarrow> r | None \<Rightarrow> s0);
          parts = List.map_filter parse_u32 (split_on CHR ''.'' s);
          part = (\<lambda>i. case nth_opt i parts of Some n \<Rightarrow> n | None \<Rightarrow> 0)
      in (part 0, part 1, part 2))"

text \<open>The order of tuples is lexicographic.\<close>

fun version_less :: "nat \<times> nat \<times> nat \<Rightarrow> nat \<times> nat \<times> nat \<Rightarrow> bool" where
  "version_less (a, b, c) (a', b', c') \<longleftrightarrow> a < a' \<or> (a = a' \<and> (b < b' \<or> (b = b' \<and> c < c')))"

definition is_newer :: "string \<Rightarrow> string \<Rightarrow> bool" where
  "is_newer current latest = version_less (parse_version current) (parse_version latest)"

section \<open>Upgrade\<close>

definition tarball_name :: "string \<Rightarrow> string \<Rightarrow> string \<Rightarrow> string" where
  "tarball_name binary_name latest_tag target =
     binary_name @ ''-'' @ latest_tag @ ''-'' @ target @ ''.tar.gz''"

definition download_url :: "string \<Rightarrow> string \<Rightarrow> string" where
  "download_url latest_tag tarball =
     ''https://github.com/'' @ REPO @ ''/releases/download/'' @ latest_tag @ ''/'' @ tarball"

definition install_binary :: "os \<Rightarrow> string \<Rightarrow> string \<Rightarrow> su_world \<Rightarrow> (update_error, unit) res \<times> su_world"
where
  "install_binary os binary_name extracted w =
     try_then (detect_install_dir os binary_name, w) (\<lambda>install_dir w.
     try_then (apfst (map_err FileError) (su_io (fs_create_dir_all install_dir) w)) (\<lambda>_ w.
     try_then (copy_with_fallback os extracted (path_join install_dir binary_name) w) (\<lambda>copied w.
       if copied then set_executable os (path_join install_dir binary_name) w else (Inr (), w))))"

definition download_release :: "os \<Rightarrow> string \<Rightarrow> string \<Rightarrow> string \<Rightarrow> su_world
    \<Rightarrow> (update_error, string) res \<times> su_world" where
  "download_release os binary_name latest_tag target w =
     (let tarball = tarball_name binary_name latest_tag target
      in try_then (tempdir os w) (\<lambda>tmp_dir w.
         try_then (path_arg (path_join tmp_dir tarball), w) (\<lambda>tar_path w.
         try_then (run_ok os [''curl'', ''-fsSL'', ''-o'', tar_path, download_url latest_tag tarball] []
                     CurlNotRun DownloadFailed w) (\<lambda>_ w.
         try_then (path_arg tmp_dir, w) (\<lambda>tmp_arg w.
         try_then (run_ok os [''tar'', ''-xzf'', tar_path, ''-C'', tmp_arg] []
                     CommandNotRun ExtractFailed w) (\<lambda>_ w.
         if \<not> fs_exists (su_fs w) (path_join tmp_dir binary_name) then (Inl NotInTarball, w)
         else (Inr tmp_dir, w)))))))"

definition upgrade :: "os \<Rightarrow> string \<Rightarrow> string \<Rightarrow> su_world \<Rightarrow> (update_error, unit) res \<times> su_world" where
  "upgrade os binary_name current_version w =
     try_then (fetch_latest_version os w) (\<lambda>latest_tag w.
       if \<not> is_newer current_version latest_tag then (Inr (), w)
       else
         try_then (detect_target os, w) (\<lambda>target w.
         try_then (download_release os binary_name latest_tag target w) (\<lambda>tmp_dir w.
         try_then (install_binary os binary_name (path_join tmp_dir binary_name) w) (\<lambda>_ w.
           (Inr (), snd (su_io (fs_remove_dir_all tmp_dir) w))))))"

section \<open>Uninstall\<close>

datatype component = Server | Client

definition SERVICE_NAME :: string where
  "SERVICE_NAME = ''zo-tunnel''"

definition SERVICE_PATH :: string where
  "SERVICE_PATH = ''/etc/systemd/system/zo-tunnel.service''"

definition server_config_dir_path :: string where
  "server_config_dir_path = ''/etc/zo-tunnel''"

definition uninstall_path :: "os \<Rightarrow> string \<Rightarrow> string" where
  "uninstall_path os binary_name =
     (case detect_install_dir os binary_name of
        Inr d \<Rightarrow> path_join d binary_name
      | Inl _ \<Rightarrow> path_join SERVER_INSTALL_DIR binary_name)"

text \<open>The results of the commands themselves are not looked at.\<close>

definition remove_service :: "os \<Rightarrow> su_world \<Rightarrow> (update_error, unit) res \<times> su_world" where
  "remove_service os w =
     (let w1 = snd (run_cmd os [''sudo'', ''systemctl'', ''stop'', ''zo-tunnel''] [] w);
          w2 = snd (run_cmd os [''sudo'', ''systemctl'', ''disable'', ''zo-tunnel''] [] w1)
      in if fs_exists (su_fs w2) SERVICE_PATH
         then try_then (remove_with_sudo os SERVICE_PATH w2) (\<lambda>_ w.
                (Inr (), snd (run_cmd os [''sudo'', ''systemctl'', ''daemon-reload''] [] w)))
         else (Inr (), w2))"

definition remove_client_dir :: "os \<Rightarrow> su_world \<Rightarrow> su_world" where
  "remove_client_dir os w =
     (case env_var (os_env os) ''HOME'' of
        None \<Rightarrow> w
      | Some home \<Rightarrow>
          let dir = path_join home ''.zotunnel''
          in if fs_exists (su_fs w) dir then snd (su_io (fs_remove_dir_all dir) w) else w)"

definition uninstall_confirmed :: "os \<Rightarrow> string \<Rightarrow> component \<Rightarrow> bool \<Rightarrow> su_world
    \<Rightarrow> (update_error, unit) res \<times> su_world" where
  "uninstall_confirmed os binary_name component keep_config w =
     (let install_path = uninstall_path os binary_name
      in try_then (if component = Server then remove_service os w else (Inr (), w)) (\<lambda>_ w.
         try_then (if fs_exists (su_fs w) install_path then remove_with_sudo os install_path w
                   else (Inr (), w)) (\<lambda>_ w.
         try_then (if component = Server \<and> \<not> keep_config \<and> fs_exists (su_fs w) server_config_dir_path
                   then remove_dir_with_sudo os server_config_dir_path w else (Inr (), w)) (\<lambda>_ w.
         (Inr (), if component = Client \<and> \<not> keep_config then remove_client_dir os w else w)))))"

definition uninstall :: "os \<Rightarrow> string \<Rightarrow> component \<Rightarrow> bool \<Rightarrow> bool \<Rightarrow> su_world
    \<Rightarrow> (update_error, unit) res \<times> su_world" where
  "uninstall os binary_name component yes keep_config w =
     (if yes then uninstall_confirmed os binary_name component keep_config w
      else case os_answer os of
             None \<Rightarrow> (Inl StdinFailed, w)
           | Some input \<Rightarrow>
               if \<not> eq_ignore_ascii_case (trim input) ''y'' then (Inr (), w)
               else uninstall_confirmed os binary_name component keep_config w)"

section \<open>The systemd service\<close>

definition unit_lines :: "string \<Rightarrow> string list" where
  "unit_lines binary_path =
     [''[Unit]'', ''Description=Zo Tunnel Server'', ''After=network.target'', [],
      ''[Service]'', ''Type=simple'', ''ExecStart='' @ binary_path @ '' start --foreground'',
      ''Restart=on-failure'', ''RestartSec=5'', ''StandardOutput=journal'', ''StandardError=journal'', [],
      ''[Install]'', ''WantedBy=multi-user.target'']"

definition systemd_unit_content :: "string \<Rightarrow> string" where
  "systemd_unit_content binary_path = concat (map (\<lambda>l. l @ [CHR 0x0A]) (unit_lines binary_path))"

definition install_systemd_service :: "os \<Rightarrow> su_world \<Rightarrow> (update_error, unit) res \<times> su_world" where
  "install_systemd_service os w =
     (let exec_path = (case os_exe os of
                         Some p \<Rightarrow> if is_str p then p else SERVER_INSTALL_DIR @ ''/zo-tunnel-server''
                       | None \<Rightarrow> SERVER_INSTALL_DIR @ ''/zo-tunnel-server'');
          content = systemd_unit_content exec_path
      in try_then
           (case su_io (fs_write SERVICE_PATH content) w of
              (Inr _, w1) \<Rightarrow> (Inr (), w1)
            | (Inl PermissionDenied, w1) \<Rightarrow>
                run_ok os [''sudo'', ''tee'', SERVICE_PATH] content CommandNotRun ServiceFailed w1
            | (Inl e, w1) \<Rightarrow> (Inl (FileError e), w1))
           (\<lambda>_ w.
             let w1 = snd (run_cmd os [''sudo'', ''systemctl'', ''daemon-reload''] [] w)
             in (Inr (), snd (run_cmd os [''sudo'', ''systemctl'', ''enable'', SERVICE_NAME] [] w1))))"

definition start_service :: "os \<Rightarrow> su_world \<Rightarrow> (update_error, unit) res \<times> su_world" where
  "start_service os w =
     run_ok os [''sudo'', ''systemctl'', ''start'', SERVICE_NAME] [] CommandNotRun ServiceFailed w"

definition stop_service :: "os \<Rightarrow> su_world \<Rightarrow> (update_error, unit) res \<times> su_world" where
  "stop_service os w =
     run_ok os [''sudo'', ''systemctl'', ''stop'', SERVICE_NAME] [] CommandNotRun ServiceFailed w"

definition restart_service :: "os \<Rightarrow> su_world \<Rightarrow> (update_error, unit) res \<times> su_world" where
  "restart_service os w =
     run_ok os [''sudo'', ''systemctl'', ''restart'', SERVICE_NAME] [] CommandNotRun ServiceFailed w"

definition is_service_active :: "os \<Rightarrow> su_world \<Rightarrow> bool \<times> su_world" where
  "is_service_active os w =
     (case run_cmd os [''systemctl'', ''is-active'', ''--quiet'', SERVICE_NAME] [] w of
        (CannotRun, w1) \<Rightarrow> (False, w1)
      | (Exited success _ _, w1) \<Rightarrow> (success, w1))"

definition is_service_installed :: "su_world \<Rightarrow> bool" where
  "is_service_installed w = fs_exists (su_fs w) SERVICE_PATH"

section \<open>Versions and tags\<close>

abbreviation version_text :: "nat \<Rightarrow> nat \<Rightarrow> nat \<Rightarrow> string" where
  "version_text a b c \<equiv> show_nat a @ CHR ''.'' # show_nat b @ CHR ''.'' # show_nat c"

lemma dot_not_digit: "CHR ''.'' \<notin> set (show_nat n)"
  using show_nat_digits [of "CHR ''.''" n] by (auto simp: is_ascii_digit_def)

lemma strip_v_version: "strip_prefix ''v'' (version_text a b c) = None"
proof -
  have "hd (show_nat a) \<noteq> CHR ''v''"
    using show_nat_digits [of "hd (show_nat a)" a] by (auto simp: is_ascii_digit_def)
  then show ?thesis by (cases "show_nat a") auto
qed

lemma parse_version_text:
  assumes "p = [] \<or> p = ''v''" "a < 2 ^ 32" "b < 2 ^ 32" "c < 2 ^ 32"
  shows "parse_version (p @ version_text a b c) = (a, b, c)"
proof -
  have "split_on CHR ''.'' (version_text a b c) = [show_nat a, show_nat b, show_nat c]"
    using split_on_append [OF dot_not_digit] split_on_free [OF dot_not_digit] by simp
  then show ?thesis
    using assms strip_v_version [of a b c]
    by (auto simp: parse_version_def map_filter_def parse_u32_def parse_unsigned_show_nat nth_opt_def)
qed

text \<open>C36: Release versions are compared as the numbers they are: for two versions of three numbers,
  with or without a leading \<open>v\<close>, the one counts as newer exactly if its numbers are greater in the
  lexicographic order.\<close>

theorem is_newer_correct:
  assumes "p = [] \<or> p = ''v''" and "q = [] \<or> q = ''v''"
    and "a < 2 ^ 32" and "b < 2 ^ 32" and "c < 2 ^ 32"
    and "a' < 2 ^ 32" and "b' < 2 ^ 32" and "c' < 2 ^ 32"
  shows "is_newer (p @ version_text a b c) (q @ version_text a' b' c') \<longleftrightarrow>
    a < a' \<or> a = a' \<and> b < b' \<or> a = a' \<and> b = b' \<and> c < c'"
  using parse_version_text [OF assms(1,3-5)] parse_version_text [OF assms(2,6-8)]
  by (auto simp: is_newer_def)

theorem is_newer_correct_witness:
  "is_newer (version_text 0 9 12) (''v'' @ version_text 0 10 0)"
  using is_newer_correct [of "[]" "''v''" 0 9 12 0 10 0] by simp

text \<open>A pre-release counts as newer than the release it precedes: the part that is not a number
  is dropped and the next one takes its place.\<close>

theorem prerelease_is_newer: "is_newer ''0.5.0'' ''v0.5.0-beta.1''"
  by (simp add: is_newer_def parse_version_def map_filter_def parse_u32_def parse_unsigned_def
      nth_opt_def is_ascii_digit_def digit_val_def)

lemma split_once_sound: "split_once p s = Some (a, b) \<Longrightarrow> s = a @ p @ b"
  by (induction p s arbitrary: a b rule: split_once.induct)
     (auto simp: starts_with_iff split: if_splits option.splits)

lemma split_once_skip:
  "p = d # ps \<Longrightarrow> d \<notin> set m \<Longrightarrow> split_once p (m @ s) = map_option (\<lambda>(a, b). (m @ a, b)) (split_once p s)"
  by (induction m) (auto simp: starts_with_iff option.map_id split: option.split)

lemma split_once_first:
  assumes "\<not> contains_str p (a @ butlast p)" "p \<noteq> []"
  shows "split_once p (a @ p @ r) = Some (a, r)"
  using assms
proof (induction a)
  case Nil
  obtain c cs where "p @ r = c # cs" using assms(2) by (cases p) auto
  then show ?case using starts_with_append [of p r] by (simp del: starts_with_append)
      (metis append_eq_conv_conj)
next
  case (Cons x a)
  have "\<not> starts_with p (x # a @ p @ r)"
  proof
    assume "starts_with p (x # a @ p @ r)"
    moreover have "butlast p @ last p # r = p @ r"
      using append_butlast_last_id [OF Cons.prems(2)] by (metis append.assoc append_Cons append_Nil)
    ultimately obtain t where t: "(x # a @ butlast p) @ last p # r = p @ t"
      by (auto simp: starts_with_iff)
    then have "p = take (length p) ((x # a @ butlast p) @ last p # r)" by simp
    also have "\<dots> = take (length p) (x # a @ butlast p)"
      using Cons.prems(2) by (cases p) auto
    finally have "x # a @ butlast p = p @ drop (length p) (x # a @ butlast p)"
      by (metis append_take_drop_id)
    then show False
      using Cons.prems(1) by (metis append_Cons contains_str_iff append_Nil)
  qed
  moreover have "\<not> contains_str p (a @ butlast p)" using Cons.prems(1) by auto
  ultimately show ?case using Cons.IH Cons.prems(2) by simp
qed

definition tag_key :: string where
  "tag_key = dquote @ ''tag_name'' @ dquote"

text \<open>The tag, between the next two quotation marks after the key, survives the cut at a later key.\<close>

lemma tag_piece:
  assumes "CHR 0x22 \<notin> set m" "CHR 0x22 \<notin> set tag" "tag \<noteq> ''tag_name''"
  shows "\<exists>more rest. split_str tag_key (m @ dquote @ tag @ dquote @ after) = (m @ dquote @ tag @ more) # rest
    \<and> (more = [] \<or> hd more = CHR 0x22)"
proof -
  let ?s = "m @ dquote @ tag @ dquote @ after"
  have key: "tag_key = CHR 0x22 # ''tag_name'' @ dquote" by (simp add: tag_key_def)
  have no: "\<not> starts_with tag_key (CHR 0x22 # tag @ dquote @ after)"
  proof
    assume "starts_with tag_key (CHR 0x22 # tag @ dquote @ after)"
    then obtain r where "tag @ CHR 0x22 # after = ''tag_name'' @ CHR 0x22 # r"
      by (auto simp: starts_with_iff tag_key_def)
    then have "takeWhile (\<lambda>c. c \<noteq> CHR 0x22) (tag @ CHR 0x22 # after)
        = takeWhile (\<lambda>c. c \<noteq> CHR 0x22) (''tag_name'' @ CHR 0x22 # r)" by simp
    moreover have "takeWhile (\<lambda>c. c \<noteq> CHR 0x22) (tag @ CHR 0x22 # after) = tag"
      using assms(2) by (subst takeWhile_append2) auto
    ultimately show False using assms(3) by simp
  qed
  have skip: "split_once tag_key ?s =
      map_option (\<lambda>(a, b). (m @ dquote @ tag @ a, b)) (split_once tag_key (CHR 0x22 # after))"
    using split_once_skip [OF key assms(1), of "dquote @ tag @ dquote @ after"]
      split_once_skip [OF key assms(2), of "dquote @ after"] no
    by (auto split: option.split)
  show ?thesis
  proof (cases "split_once tag_key (CHR 0x22 # after)")
    case None
    then have "split_str tag_key ?s = [?s]"
      using skip by (subst split_str.simps) simp
    then show ?thesis by (intro exI [of _ "dquote @ after"] exI [of _ "[]"]) simp
  next
    case (Some ab)
    then obtain a b where ab: "split_once tag_key (CHR 0x22 # after) = Some (a, b)" by (cases ab) simp
    then have "split_str tag_key ?s = (m @ dquote @ tag @ a) # split_str tag_key b"
      using skip by (subst split_str.simps) (simp add: tag_key_def)
    moreover have "a = [] \<or> hd a = CHR 0x22"
      using split_once_sound [OF ab] by (cases a) auto
    ultimately show ?thesis by blast
  qed
qed

text \<open>The release tag is found where GitHub puts it: in any answer in which the key
  \<open>tag_name\<close> comes first with a quoted value after it, the value is the tag, whatever stands
  before and after, further keys of this name included.\<close>

theorem tag_extracted:
  assumes "\<not> contains_str (dquote @ ''tag_name'' @ dquote) (before @ dquote @ ''tag_name'')"
    and "CHR 0x22 \<notin> set colon" and "CHR 0x22 \<notin> set tag" and "tag \<noteq> ''tag_name''"
  shows "extract_tag (before @ (dquote @ ''tag_name'' @ dquote) @ colon @ dquote @ tag @ dquote @ after)
    = Some tag"
proof -
  let ?r = "colon @ dquote @ tag @ dquote @ after"
  have key: "tag_key \<noteq> []" "butlast tag_key = dquote @ ''tag_name''" by (simp_all add: tag_key_def)
  have "split_once tag_key (before @ tag_key @ ?r) = Some (before, ?r)"
    using assms(1) key by (intro split_once_first) (simp_all add: tag_key_def)
  then have "split_str tag_key (before @ tag_key @ ?r) = before # split_str tag_key ?r"
    using key(1) by (subst split_str.simps) simp
  moreover obtain more rest where "split_str tag_key ?r = (colon @ dquote @ tag @ more) # rest"
    "more = [] \<or> hd more = CHR 0x22"
    using tag_piece [OF assms(2-4)] by blast
  moreover have "nth_opt 1 (split_on CHR 0x22 (colon @ CHR 0x22 # tag @ more)) = Some tag"
    if "more = [] \<or> hd more = CHR 0x22" for more
    using that assms(2,3) split_on_free [OF assms(3)]
    by (cases more) (auto simp: split_on_append nth_opt_def)
  ultimately have "extract_tag (before @ tag_key @ ?r) = Some tag"
    unfolding extract_tag_def tag_key_def [symmetric] by (simp add: nth_opt_def)
  then show ?thesis unfolding tag_key_def .
qed

theorem tag_extracted_witness:
  "extract_tag (''{'' @ (dquote @ ''tag_name'' @ dquote) @ '': '' @ dquote @ ''v1.2.3'' @ dquote @ ''}'')
     = Some ''v1.2.3''"
  by (rule tag_extracted) (simp_all add: starts_with_iff)

section \<open>What an upgrade does\<close>

text \<open>Every operation adds to the log of commands.\<close>

definition logs_more :: "su_world \<Rightarrow> su_world \<Rightarrow> bool" where
  "logs_more w w' \<longleftrightarrow> (\<exists>more. su_cmds w' = su_cmds w @ more)"

lemma logs_more_refl [simp]: "logs_more w w"
  by (simp add: logs_more_def)

lemma logs_more_trans: "logs_more a b \<Longrightarrow> logs_more b c \<Longrightarrow> logs_more a c"
  by (auto simp: logs_more_def)

lemma run_cmd_log: "run_cmd os argv inp w = (r, w') \<Longrightarrow> su_cmds w' = su_cmds w @ [argv]"
  by (auto simp: run_cmd_def split: prod.splits)

lemma run_ok_log: "run_ok os argv inp e1 e2 w = (r, w') \<Longrightarrow> su_cmds w' = su_cmds w @ [argv]"
  by (auto simp: run_ok_def dest: run_cmd_log split: prod.splits cmd_result.splits if_splits)

lemma su_io_log: "su_io op w = (r, w') \<Longrightarrow> su_cmds w' = su_cmds w"
  by (auto simp: su_io_def split: prod.splits)

lemma snd_run_cmd_log [simp]: "su_cmds (snd (run_cmd os argv inp w)) = su_cmds w @ [argv]"
  using run_cmd_log by (metis prod.collapse)

lemma snd_su_io_log [simp]: "su_cmds (snd (su_io op w)) = su_cmds w"
  using su_io_log by (metis prod.collapse)

lemma try_then_log:
  assumes "try_then p f = (r, w')" "logs_more w (snd p)"
    "\<And>x w1. p = (Inr x, w1) \<Longrightarrow> f x w1 = (r, w') \<Longrightarrow> logs_more w1 w'"
  shows "logs_more w w'"
  using assms by (auto simp: try_then_eq intro: logs_more_trans)

lemma clear_destination_log: "clear_destination os dst w = (r, w') \<Longrightarrow> logs_more w w'"
  by (auto simp: clear_destination_def logs_more_def try_then_eq dest!: su_io_log
      split: if_splits prod.splits sum.splits io_error.splits)

lemma copy_log: "copy_with_fallback os src dst w = (r, w') \<Longrightarrow> logs_more w w'"
proof -
  assume st: "copy_with_fallback os src dst w = (r, w')"
  obtain r1 w1 where c: "clear_destination os dst w = (r1, w1)" by (cases "clear_destination os dst w")
  show ?thesis
    using st clear_destination_log [OF c] unfolding copy_with_fallback_def c
    by (cases r1)
       (auto simp: try_then_eq logs_more_def dest!: su_io_log run_ok_log
         split: prod.splits sum.splits io_error.splits)
qed

lemma apfst_su_io_log: "apfst f (su_io op w) = (r, w') \<Longrightarrow> su_cmds w' = su_cmds w"
  by (cases "su_io op w") (auto dest: su_io_log)

lemma install_log: "install_binary os b ex w = (r, w') \<Longrightarrow> logs_more w w'"
proof -
  have chmod: "set_executable os p u = (r, u') \<Longrightarrow> logs_more u u'" for p u r u'
    by (auto simp: set_executable_def logs_more_def try_then_eq split: if_splits)
  assume "install_binary os b ex w = (r, w')"
  then show ?thesis
    by (auto simp: install_binary_def try_then_eq logs_more_def
        split: if_splits dest!: apfst_su_io_log copy_log chmod)
qed

abbreviation api_cmd :: "string list" where
  "api_cmd \<equiv> [''curl'', ''-sSL'', ''--max-time'', ''15'',
     ''https://api.github.com/repos/'' @ REPO @ ''/releases/latest'']"

abbreviation download_cmd :: "string \<Rightarrow> string \<Rightarrow> string \<Rightarrow> string list" where
  "download_cmd tmp tag tarball \<equiv>
     [''curl'', ''-fsSL'', ''-o'', path_join tmp tarball, download_url tag tarball]"

lemma download_log:
  assumes "download_release os b tag target w = (r, w')"
  shows "su_cmds w' = su_cmds w \<and> (\<exists>e. r = Inl e)
    \<or> (\<exists>tmp more. su_cmds w' = su_cmds w @ download_cmd tmp tag (tarball_name b tag target) # more)"
proof -
  obtain r1 w1 where t: "tempdir os w = (r1, w1)" by (cases "tempdir os w")
  then have log: "su_cmds w1 = su_cmds w"
    by (auto simp: tempdir_def Let_def dest!: su_io_log split: prod.splits sum.splits)
  show ?thesis
    using assms t log
    by (cases r1)
       (auto simp: download_release_def Let_def try_then_eq path_arg_def dest!: run_ok_log
         split: if_splits)
qed


lemma fs_content_create_dir: "fs_create_dir_all d s = (r, s') \<Longrightarrow>
    fs_files s' = fs_files s \<and> fs_denied s' = fs_denied s"
  by (auto simp: fs_create_dir_all_def split: if_splits)

lemma clear_destination_direct:
  assumes "clear_destination os dst w = (r, w')" "fs_wf (su_fs w)" "dst \<notin> set (fs_denied (su_fs w))"
  shows "r = Inr () \<and> su_cmds w' = su_cmds w \<and> fs_wf (su_fs w')
    \<and> fs_denied (su_fs w') = fs_denied (su_fs w)
    \<and> (\<forall>q. q \<noteq> dst \<longrightarrow> fs_content (su_fs w') q = fs_content (su_fs w) q)"
  using assms
  by (auto simp: clear_destination_def su_io_def fs_remove_file_def fs_wf_def dm_remove_get
      split: if_splits)

lemma copy_direct:
  assumes "copy_with_fallback os src dst w = (Inr copied, w')" "fs_wf (su_fs w)"
    "dst \<notin> set (fs_denied (su_fs w))" "src \<noteq> dst"
  shows "copied \<and> su_cmds w' = su_cmds w \<and> dst \<notin> set (fs_denied (su_fs w'))
    \<and> fs_content (su_fs w') dst = fs_content (su_fs w) src \<and> fs_content (su_fs w) src \<noteq> None
    \<and> (\<forall>q. q \<noteq> dst \<longrightarrow> fs_content (su_fs w') q = fs_content (su_fs w) q)"
proof -
  obtain r1 w1 where c: "clear_destination os dst w = (r1, w1)" by (cases "clear_destination os dst w")
  note C = clear_destination_direct [OF c assms(2,3)]
  obtain r2 w2 where io: "su_io (fs_copy src dst) w1 = (r2, w2)" by (cases "su_io (fs_copy src dst) w1")
  have "r2 \<noteq> Inl PermissionDenied"
    using io C assms(3) by (auto simp: su_io_def fs_copy_def fs_write_def fs_read_def
        split: prod.splits sum.splits option.splits if_splits)
  then have r2: "r2 = Inr ()" "w' = w2" "copied"
    using assms(1) C c io by (auto simp: copy_with_fallback_def split: sum.splits io_error.splits)
  then obtain body where body: "fs_read (su_fs w1) src = Inr body" "fs_write dst body (su_fs w1) = (Inr (), su_fs w2)"
    and cmds: "su_cmds w2 = su_cmds w1"
    using io by (auto simp: su_io_def fs_copy_def split: prod.splits sum.splits)
  have "fs_content (su_fs w1) src = Some body" "fs_denied (su_fs w2) = fs_denied (su_fs w1)"
    using body by (auto simp: fs_read_def fs_write_def split: if_splits option.splits
        dest!: sym [of _ "su_fs w2"])
  moreover have "fs_content (su_fs w2) q = (if q = dst then Some body else fs_content (su_fs w1) q)" for q
    using fsys.write_ok [OF _ body(2)] C by blast
  ultimately show ?thesis using r2 cmds C assms(3,4) by auto
qed

text \<open>C35: Installing an upgrade puts exactly the extracted program in place: where the directory can
  be written without help, a successful installation leaves the content of the extracted file under
  the program's name, changes no other file and runs no command.\<close>

theorem install_replaces_binary:
  assumes "install_binary os b ex w = (Inr (), w')" and "fs_wf (su_fs w)"
    and "detect_install_dir os b = Inr dir" and "path_join dir b \<notin> set (fs_denied (su_fs w))"
    and "ex \<noteq> path_join dir b"
  shows "fs_content (su_fs w') (path_join dir b) = fs_content (su_fs w) ex
    \<and> fs_content (su_fs w) ex \<noteq> None \<and> su_cmds w' = su_cmds w
    \<and> (\<forall>q. q \<noteq> path_join dir b \<longrightarrow> fs_content (su_fs w') q = fs_content (su_fs w) q)"
proof -
  let ?dst = "path_join dir b"
  obtain w1 copied w2 where mk: "su_io (fs_create_dir_all dir) w = (Inr (), w1)"
    and cp: "copy_with_fallback os ex ?dst w1 = (Inr copied, w2)"
    and ch: "(if copied then set_executable os ?dst w2 else (Inr (), w2)) = (Inr (), w')"
    using assms(1,3) by (auto simp: install_binary_def try_then_eq_Inr apfst_def map_prod_def
        split: prod.splits)
  have w1: "fs_files (su_fs w1) = fs_files (su_fs w)" "fs_denied (su_fs w1) = fs_denied (su_fs w)"
    "su_cmds w1 = su_cmds w"
    using mk fs_content_create_dir by (auto simp: su_io_def split: prod.splits)
  then have "fs_wf (su_fs w1)" "?dst \<notin> set (fs_denied (su_fs w1))"
    using assms(2,4) by (simp_all add: fs_wf_def)
  note C = copy_direct [OF cp this assms(5)]
  then have "fs_exists (su_fs w2) ?dst" using w1(1) by (simp add: fs_exists_def fs_is_file_def)
  then have "w' = w2" using ch C by (auto simp: set_executable_def split: if_splits)
  then show ?thesis using C w1 by simp
qed

section \<open>What an uninstall leaves\<close>

text \<open>No command of the system touches the file.\<close>

definition commands_spare :: "os \<Rightarrow> string \<Rightarrow> bool" where
  "commands_spare os q \<longleftrightarrow> (\<forall>argv inp s. fs_content (snd (os_run os argv inp s)) q = fs_content s q)"

lemma dm_get_remove_other: "q \<noteq> p \<Longrightarrow> dm_get (dm_remove p m) q = dm_get m q"
  by (induction m) (auto simp: dm_get_def dm_remove_def dm_remove_if_def)

lemma run_cmd_spares:
  "commands_spare os q \<Longrightarrow> run_cmd os argv inp w = (r, w') \<Longrightarrow>
     fs_content (su_fs w') q = fs_content (su_fs w) q"
  unfolding commands_spare_def run_cmd_def
  by (cases "os_run os argv inp (su_fs w)") (auto dest: spec [of _ argv] spec, metis snd_conv)

lemma snd_run_cmd_spares:
  "commands_spare os q \<Longrightarrow> fs_content (su_fs (snd (run_cmd os argv inp w))) q = fs_content (su_fs w) q"
  using run_cmd_spares by (metis prod.collapse)

lemma run_ok_spares:
  "commands_spare os q \<Longrightarrow> run_ok os argv inp e1 e2 w = (r, w') \<Longrightarrow>
     fs_content (su_fs w') q = fs_content (su_fs w) q"
  by (auto simp: run_ok_def dest: run_cmd_spares split: prod.splits cmd_result.splits)

lemma remove_with_sudo_spares:
  "commands_spare os q \<Longrightarrow> q \<noteq> p \<Longrightarrow> remove_with_sudo os p w = (r, w') \<Longrightarrow>
     fs_content (su_fs w') q = fs_content (su_fs w) q"
  using run_ok_spares [of os q]
  by (auto simp: remove_with_sudo_def su_io_def fs_remove_file_def try_then_eq dm_get_remove_other
      split: if_splits)

lemma remove_service_spares:
  "commands_spare os q \<Longrightarrow> q \<noteq> SERVICE_PATH \<Longrightarrow> remove_service os w = (r, w') \<Longrightarrow>
     fs_content (su_fs w') q = fs_content (su_fs w) q"
  using remove_with_sudo_spares [of os q SERVICE_PATH]
  by (auto simp: remove_service_def Let_def try_then_eq snd_run_cmd_spares split: if_splits)

text \<open>Uninstalling with the configuration kept removes the program and, for the server, the unit
  file, and nothing else: any other file is as before, as long as the system's own commands leave it
  alone. This holds for the client as well as for the server.\<close>

theorem uninstall_keeps_config:
  assumes "uninstall os b component yes True w = (r, w')" and "commands_spare os q"
    and "q \<noteq> uninstall_path os b" and "q \<noteq> SERVICE_PATH"
  shows "fs_content (su_fs w') q = fs_content (su_fs w) q"
proof -
  have "fs_content (su_fs w') q = fs_content (su_fs w) q"
    if "uninstall_confirmed os b component True w = (r, w')"
    using that remove_service_spares [OF assms(2,4)] remove_with_sudo_spares [OF assms(2,3)]
    by (auto simp: uninstall_confirmed_def Let_def try_then_eq split: if_splits)
  then show ?thesis using assms(1) by (auto simp: uninstall_def split: if_splits option.splits)
qed

text \<open>Without consent nothing happens: unless it was given on the command line, any answer but
  \<open>y\<close>, in either case and with any space around it, runs no command and touches no file.\<close>

theorem uninstall_needs_consent:
  assumes "case os_answer os of Some a \<Rightarrow> \<not> eq_ignore_ascii_case (trim a) ''y'' | None \<Rightarrow> True"
  shows "snd (uninstall os b component False keep w) = w"
  using assms by (auto simp: uninstall_def split: option.splits)

section \<open>Witnesses\<close>

text \<open>A system whose commands change nothing and answer with a release tag.\<close>

definition demo_answer :: string where
  "demo_answer = ''{'' @ (dquote @ ''tag_name'' @ dquote) @ '': '' @ dquote @ ''v2.0.0'' @ dquote @ ''}''"

definition demo_os :: os where
  "demo_os = \<lparr>os_env = \<lparr>env_vars = [(''HOME'', ''/h'')], euid = 1000\<rparr>, os_exe = Some ''/b/zotunnel'',
     os_name = ''linux'', os_arch = ''x86_64'', os_temp_dir = ''/tmp'', os_millis = 7,
     os_answer = Some ''n'', os_run = (\<lambda>argv inp s. (Exited True (as_bytes demo_answer) [], s))\<rparr>"

definition demo_su :: su_world where
  "demo_su = \<lparr>su_fs = \<lparr>fs_files = [(''/b/zotunnel'', ''old''), (''/t/zotunnel'', ''new''),
       (''/h/.zotunnel/config.yaml'', ''c'')], fs_dirs = [''/b'', ''/t'', ''/tmp''], fs_denied = [],
       fs_writes = []\<rparr>, su_cmds = []\<rparr>"

lemma demo_tag: "extract_tag (from_utf8_lossy (as_bytes demo_answer)) = Some ''v2.0.0''"
proof -
  have "is_str demo_answer" by (rule ascii_is_str) (simp add: demo_answer_def)
  then have "from_utf8_lossy (as_bytes demo_answer) = demo_answer" by (rule from_utf8_lossy_as_bytes)
  moreover have "split_once tag_key demo_answer = Some (''{'', '': '' @ dquote @ ''v2.0.0'' @ dquote @ ''}'')"
    "split_once tag_key ('': '' @ dquote @ ''v2.0.0'' @ dquote @ ''}'') = None"
    by (simp_all add: demo_answer_def tag_key_def starts_with_iff)
  ultimately show ?thesis
    unfolding extract_tag_def tag_key_def [symmetric]
    by (simp add: split_str.simps [of tag_key] nth_opt_def) (simp add: tag_key_def)
qed

lemma demo_cmds: "su_cmds demo_su = []"
  by (simp add: demo_su_def)

lemma demo_spare: "commands_spare demo_os q"
  by (simp add: commands_spare_def demo_os_def)

lemma demo_su_wf: "fs_wf (su_fs demo_su)"
  by (simp add: fs_wf_def dm_wf_def demo_su_def)

lemma demo_install_dir: "detect_install_dir demo_os ''zotunnel'' = Inr ''/b''"
proof -
  have "from_utf8_lossy (as_bytes ''/b'') = ''/b''" by (intro from_utf8_lossy_as_bytes ascii_is_str) simp
  then show ?thesis
    by (simp add: detect_install_dir_def demo_os_def path_parent_def parent_dir_def starts_with_iff)
qed

lemma demo_runs: "run_cmd demo_os argv inp w
    = (Exited True (as_bytes demo_answer) [], \<lparr>su_fs = su_fs w, su_cmds = su_cmds w @ [argv]\<rparr>)"
  by (simp add: run_cmd_def demo_os_def)

lemma demo_newer: "is_newer ''1.0.0'' ''v2.0.0''"
  by (simp add: is_newer_def parse_version_def map_filter_def parse_u32_def parse_unsigned_def
      nth_opt_def is_ascii_digit_def digit_val_def)

lemma demo_tempdir:
  assumes "su_fs w = su_fs demo_su"
  shows "\<exists>tmp w1. tempdir demo_os w = (Inr tmp, w1) \<and> su_cmds w1 = su_cmds w \<and> ascii tmp"
  using assms
  by (simp add: tempdir_def demo_os_def su_io_def fs_create_dir_all_def demo_su_def fs_is_dir_def
      fs_is_file_def dm_get_def path_join_def starts_with_iff Let_def)

lemma demo_download:
  assumes "su_fs w = su_fs demo_su"
  shows "\<exists>r w2 cmd more. download_release demo_os ''zotunnel'' ''v2.0.0'' ''linux-amd64'' w = (r, w2)
    \<and> su_cmds w2 = su_cmds w @ cmd # more"
proof -
  obtain tmp w1 where tmp: "tempdir demo_os w = (Inr tmp, w1)" "su_cmds w1 = su_cmds w" "ascii tmp"
    using demo_tempdir [OF assms] by blast
  have "is_str (path_join tmp (tarball_name ''zotunnel'' ''v2.0.0'' ''linux-amd64''))"
    using tmp(3) by (intro ascii_is_str) (simp add: path_join_def tarball_name_def)
  then show ?thesis
    using tmp ascii_is_str [OF tmp(3)]
    by (simp add: download_release_def Let_def path_arg_def run_ok_def demo_runs)
qed

lemma demo_upgrade_goes_on:
  assumes "upgrade demo_os ''zotunnel'' ''1.0.0'' demo_su = (r, w')"
  shows "length (su_cmds w') \<noteq> 1"
proof -
  obtain w0 where f: "fetch_latest_version demo_os demo_su = (Inr ''v2.0.0'', w0)"
    "su_fs w0 = su_fs demo_su" "length (su_cmds w0) = 1"
    by (simp add: fetch_latest_version_def Let_def demo_runs demo_tag demo_cmds)
  have t: "detect_target demo_os = Inr ''linux-amd64''" by (simp add: detect_target_def demo_os_def)
  obtain r2 w2 cmd more where d: "download_release demo_os ''zotunnel'' ''v2.0.0'' ''linux-amd64'' w0 = (r2, w2)"
    "su_cmds w2 = su_cmds w0 @ cmd # more"
    using demo_download [OF f(2)] by blast
  have "logs_more w2 w'"
    using assms f(1) t demo_newer d(1)
    by (cases r2) (auto simp: upgrade_def try_then_eq logs_more_def dest!: install_log)
  then show ?thesis using d(2) f(3) by (auto simp: logs_more_def)
qed


theorem install_replaces_binary_witness:
  "\<exists>w'. install_binary demo_os ''zotunnel'' ''/t/zotunnel'' demo_su = (Inr (), w')
     \<and> fs_content (su_fs w') ''/b/zotunnel'' = Some ''new''"
proof -
  have p: "path_join ''/b'' ''zotunnel'' = ''/b/zotunnel''" by (simp add: path_join_def starts_with_iff)
  obtain w' where w': "install_binary demo_os ''zotunnel'' ''/t/zotunnel'' demo_su = (Inr (), w')"
    by (simp add: install_binary_def demo_install_dir su_io_def fs_create_dir_all_def demo_su_def
        fs_is_dir_def copy_with_fallback_def clear_destination_def fs_exists_def fs_is_file_def
        fs_remove_file_def fs_copy_def fs_read_def fs_write_def set_executable_def dm_get_def p
        dm_remove_def dm_remove_if_def parent_dir_def dm_put_def)
  have "fs_content (su_fs demo_su) ''/t/zotunnel'' = Some ''new''"
    "path_join ''/b'' ''zotunnel'' \<notin> set (fs_denied (su_fs demo_su))"
    by (simp_all add: demo_su_def dm_get_def)
  with install_replaces_binary [OF w' demo_su_wf demo_install_dir] w' show ?thesis
    unfolding p by auto
qed

theorem uninstall_keeps_config_witness:
  "fs_content (su_fs (snd (uninstall demo_os ''zotunnel'' Client True True demo_su)))
     ''/h/.zotunnel/config.yaml'' = Some ''c''"
proof -
  obtain r w' where u: "uninstall demo_os ''zotunnel'' Client True True demo_su = (r, w')"
    by (cases "uninstall demo_os ''zotunnel'' Client True True demo_su")
  have "''/h/.zotunnel/config.yaml'' \<noteq> uninstall_path demo_os ''zotunnel''"
    by (simp add: uninstall_path_def demo_install_dir path_join_def starts_with_iff)
  moreover have "''/h/.zotunnel/config.yaml'' \<noteq> SERVICE_PATH" by (simp add: SERVICE_PATH_def)
  ultimately have "fs_content (su_fs w') ''/h/.zotunnel/config.yaml''
      = fs_content (su_fs demo_su) ''/h/.zotunnel/config.yaml''"
    using uninstall_keeps_config [OF u demo_spare] by blast
  then show ?thesis using u by (simp add: demo_su_def dm_get_def)
qed

theorem uninstall_needs_consent_witness:
  "snd (uninstall demo_os ''zotunnel'' Client False False demo_su) = demo_su"
proof -
  have "trim ''n'' = ''n''"
    by (simp add: trim_def chars_ascii str_bytes_def trim_list_def is_whitespace_def of_chars_def
        encode_cp_def) code_simp
  then show ?thesis
    by (intro uninstall_needs_consent)
       (simp add: demo_os_def eq_ignore_ascii_case_def ascii_lower_def Let_def)
qed

end
