(* ===== verification/Tunnel.thy ===== *)
theory Tunnel
  imports Server_Safety Client_Session
begin

text \<open>
  Client and server together: the handshake over the wire, the route the client shows, the markers
  at the head of the yamux streams, and a new tunnel from its request to its first visitor.
\<close>

text \<open>The client reads from the server's reply exactly the host the server meant.\<close>

lemma connected_route_accept:
  "connected_route (accept_reply cfg a) = ''https://'' @ ar_client_id a @ ''.'' @ domain cfg"
proof -
  have "ok_prefix = client_ok_prefix" by (simp add: ok_prefix_def client_ok_prefix_def)
  then show ?thesis by (simp add: connected_route_def accept_reply_def)
qed

text \<open>C13: The handshake works over the wire: what the client sends, the server reads as its
  authentication request and, with a valid token, accepts; what the server answers, the client reads
  as a success, and shows the host made of its own id and the server's domain. Both sides read
  exactly their frame and leave what follows to yamux.\<close>

theorem handshake_over_the_wire:
  assumes "write_message c w (AuthReq (client_auth_req v cl)) = (Inr (), w1)" and "written w = []"
    and "codec_roundtrips c (AuthReq (client_auth_req v cl))"
    and "\<And>p. encode_payload c (AuthReq (client_auth_req v cl)) = Inr p \<Longrightarrow> length p < 2 ^ 32"
    and "validate_token cfg (cl_token cl)"
    and "write_message c u (AuthRes (accept_reply cfg (client_auth_req v cl))) = (Inr (), u1)"
    and "written u = []"
    and "codec_roundtrips c (AuthRes (accept_reply cfg (client_auth_req v cl)))"
    and "\<And>p. encode_payload c (AuthRes (accept_reply cfg (client_auth_req v cl))) = Inr p
           \<Longrightarrow> length p < 2 ^ 32"
  shows "on_auth_read cfg (Some (fst (read_message c (written w1 @ r)))) = Accepting (client_auth_req v cl)
    \<and> snd (read_message c (written w1 @ r)) = r
    \<and> on_auth_reply (fst (read_message c (written u1 @ r')))
        = Inr (''https://'' @ cl_client_id cl @ ''.'' @ domain cfg)
    \<and> snd (read_message c (written u1 @ r')) = r'"
proof -
  obtain f where f: "written w1 = written w @ f"
    "\<forall>r. read_message c (f @ r) = (Inr (AuthReq (client_auth_req v cl)), r)"
    by (rule written_is_read [OF assms(1,3,4)])
  obtain g where g: "written u1 = written u @ g"
    "\<forall>r. read_message c (g @ r) = (Inr (AuthRes (accept_reply cfg (client_auth_req v cl))), r)"
    by (rule written_is_read [OF assms(6,8,9)])
  have "as_success (accept_reply cfg (client_auth_req v cl))" by (simp add: accept_reply_def)
  then show ?thesis
    using f g assms(2,5,7)
    by (simp add: on_auth_read_def on_auth_reply_def connected_route_accept)
       (simp add: client_auth_req_def)
qed

abbreviation wire_client :: client where
  "wire_client \<equiv> \<lparr>cl_server_addr = ''t.io:6200'', cl_local_addr = ''localhost:80'',
     cl_client_id = ''app'', cl_token = ''x'', cl_tls = \<lparr>ct_enabled = False, ct_server_name = [],
       ct_skip_verify = False\<rparr>\<rparr>"

definition wire_codec :: codec where
  "wire_codec = \<lparr>
     to_vec_auth_req = (\<lambda>a. Some [1]), from_slice_auth_req = (\<lambda>b. Some (client_auth_req ''1'' wire_client)),
     to_vec_auth_res = (\<lambda>a. Some [2]),
     from_slice_auth_res = (\<lambda>b. Some (accept_reply demo_cfg (client_auth_req ''1'' wire_client))),
     to_vec_new_conn = (\<lambda>a. None), from_slice_new_conn = (\<lambda>b. None),
     to_vec_accept_conn = (\<lambda>a. None), from_slice_accept_conn = (\<lambda>b. None)\<rparr>"

lemma wire_written:
  "\<exists>w1. write_message wire_codec fresh_writer (AuthReq a) = (Inr (), w1)"
  "\<exists>w1. write_message wire_codec fresh_writer (AuthRes b) = (Inr (), w1)"
  by (simp_all add: write_message_def wire_codec_def write_all_def MAX_PAYLOAD_SIZE_def)

theorem handshake_over_the_wire_witness:
  "\<exists>bs. on_auth_reply (fst (read_message wire_codec bs)) = Inr (''https://'' @ ''app'' @ ''.'' @ ''t.io'')"
proof -
  let ?a = "client_auth_req ''1'' wire_client"
  obtain w1 u1 where w: "write_message wire_codec fresh_writer (AuthReq ?a) = (Inr (), w1)"
    "write_message wire_codec fresh_writer (AuthRes (accept_reply demo_cfg ?a)) = (Inr (), u1)"
    using wire_written by blast
  have c: "codec_roundtrips wire_codec (AuthReq ?a)"
    "codec_roundtrips wire_codec (AuthRes (accept_reply demo_cfg ?a))"
    by (simp_all add: wire_codec_def)
  have l: "\<And>p. encode_payload wire_codec (AuthReq ?a) = Inr p \<Longrightarrow> length p < 2 ^ 32"
    "\<And>p. encode_payload wire_codec (AuthRes (accept_reply demo_cfg ?a)) = Inr p \<Longrightarrow> length p < 2 ^ 32"
    by (auto simp: wire_codec_def)
  have "on_auth_reply (fst (read_message wire_codec (written u1 @ [])))
      = Inr (''https://'' @ cl_client_id wire_client @ ''.'' @ domain demo_cfg)"
    using handshake_over_the_wire [OF w(1) _ c(1) l(1) demo_token w(2) _ c(2) l(2), of "[]" "[]"]
    by simp
  then show ?thesis by (intro exI [of _ "written u1 @ []"]) simp
qed




end
