(* ===== verification/Programs.thy ===== *)
theory Programs
  imports Site Restart Client_Cli Self_Update
begin

text \<open>
  The two programs from their \<open>main\<close>: \<open>zo-tunnel-server/src/main.rs\<close>, from the command line
  through the configuration to the running server, and \<open>zo-tunnel-client/src/main.rs\<close>, from the
  command to what it does. Parsing of the command line (\<open>clap\<close>) is left out.
\<close>

section \<open>The server\<close>

datatype run_server_error = StartFailed start_error | RunFailed run_error

text \<open>A successful start gives the configuration and the fresh site; the file system is the one
  they leave.\<close>

definition run_server :: "yaml_codec \<Rightarrow> bytes \<Rightarrow> bytes \<Rightarrow> environment \<Rightarrow> start_args \<Rightarrow> instant \<Rightarrow> fs
    \<Rightarrow> (run_server_error, server_config \<times> ('u, 'h, 'r) site) res \<times> fs" where
  "run_server y rnd24 rnd16 e args now s =
     (case prepare_config y rnd24 rnd16 e args s of
        (Inl err, s1) \<Rightarrow> (Inl (StartFailed err), s1)
      | (Inr cfg, s1) \<Rightarrow>
          (case site_run cfg now s1 of
             Inl err \<Rightarrow> (Inl (RunFailed err), s1)
           | Inr st \<Rightarrow> (Inr (cfg, st), sy_fs (st_sys st))))"

lemma run_server_Inr:
  "run_server y r24 r16 e args now s = (Inr (cfg, st), s2) \<longleftrightarrow>
     (\<exists>s1. prepare_config y r24 r16 e args s = (Inr cfg, s1) \<and> site_run cfg now s1 = Inr st
        \<and> s2 = sy_fs (st_sys st))"
  by (auto simp: run_server_def split: prod.splits sum.splits)

lemma run_server_no_domain:
  "prepare_config y r24 r16 e args s = (Inr cfg, s1) \<Longrightarrow> domain cfg = [] \<Longrightarrow>
     run_server y r24 r16 e args now s = (Inl (RunFailed DomainRequired), s1)"
  by (simp add: run_server_def site_run_def server_run_def)

text \<open>A first start writes the configuration it has built.\<close>

lemma first_start:
  assumes "\<not> fs_exists s (choose_config_path e s args) \<or> sa_force args"
    and "prepare_config y r24 r16 e args s = (Inr cfg, s1)"
  obtains d yaml s0 where "sa_domain args = Some d"
    "cfg = apply_env_overrides e (build_config r24 r16 s args d)"
    "yaml_to_string y (build_config r24 r16 s args d) = Some yaml"
    "fs_create_dir_all (parent_dir (choose_config_path e s args)) s = (Inr (), s0)"
    "fs_write (choose_config_path e s args) (config_header (choose_config_path e s args) @ yaml) s0
       = (Inr (), s1)"
  using assms
  by (auto simp: prepare_config_def Let_def split: option.splits prod.splits sum.splits if_splits)

text \<open>The token the first start settles on.\<close>

definition first_token :: "bytes \<Rightarrow> environment \<Rightarrow> start_args \<Rightarrow> string" where
  "first_token rnd24 e args =
     (case non_empty (env_var e ''ZO_TOKEN'') of
        Some t \<Rightarrow> t
      | None \<Rightarrow> (case non_empty (sa_token args) of Some t \<Rightarrow> t | None \<Rightarrow> generate_token rnd24))"

lemma first_token_only:
  "auth_tokens (apply_env_overrides e (build_config r24 r16 s args d)) = [first_token r24 e args]"
  by (simp add: overrides_auth first_token_def build_config_def Let_def split: option.split)

text \<open>C25: A server started for the first time lets in no one without its token, from the command line
  to the registry: in every state it ever reaches, each registered client is served by a session that
  showed exactly the token of the environment, else of the command line, else a generated one, and
  that token is never empty.\<close>

theorem first_start_is_closed:
  fixes st :: "('u, 'h, 'r) site"
  assumes "run_server y r24 r16 e args now s = (Inr (cfg, st0), s2)"
    and "\<not> fs_exists s (choose_config_path e s args) \<or> sa_force args" and "r24 \<noteq> []"
    and "site_reachable cfg L A ct_eq st" and "sessions_made (st_sys st) < 2 ^ 64"
    and "registry_get (registry_of (st_sys st)) k = Some n"
  shows "first_token r24 e args \<noteq> []
    \<and> (\<exists>i < length (sy_conns (st_sys st)). \<exists>a. sy_conns (st_sys st) ! i = Serving a n
         \<and> ar_client_id a = k \<and> ar_token a = first_token r24 e args)"
proof -
  obtain s1 where "prepare_config y r24 r16 e args s = (Inr cfg, s1)"
    using assms(1) by (auto simp: run_server_Inr)
  with assms(2) obtain d where "cfg = apply_env_overrides e (build_config r24 r16 s args d)"
    by (rule first_start)
  then have tokens: "auth_tokens cfg = [first_token r24 e args]" by (simp add: first_token_only)
  note inv = session_inv_reachable [OF site_server [OF assms(4)] assms(5)]
  obtain i a where i: "i < length (sy_conns (st_sys st))" "sy_conns (st_sys st) ! i = Serving a n"
    using session_invD(7) [OF inv assms(6)] by blast
  have "owner_ok cfg (st_sys st) a n" using session_invD(5) [OF inv i(1), of a n] i(2) by simp
  moreover have "ce_client_id (clients_heap (heap_of (st_sys st)) ! n) = k"
    using session_invD(1) [OF inv] assms(6) by (auto simp: registry_wf_def registry_get_def)
  moreover have "first_token r24 e args \<noteq> []"
    using assms(3) generate_token_Nil by (auto simp: first_token_def dest: non_empty_Some split: option.split)
  ultimately show ?thesis
    using i tokens by (auto simp: owner_ok_def validate_token_iff)
qed

text \<open>What the first start wrote is read by a later one.\<close>

lemma written_config_read:
  assumes "prepare_config y r24 r16 e args s = (Inr cfg, s1)"
    and "\<not> fs_exists s (choose_config_path e s args) \<or> sa_force args" and "sa_domain args = Some d"
    and "choose_config_path e' s1 args' = choose_config_path e s args" and "\<not> sa_force args'"
    and "fs_wf s" and "\<And>c t. yaml_to_string y c = Some t \<Longrightarrow>
      yaml_from_str y (config_header (choose_config_path e s args) @ t) = Some c
      \<and> is_str (config_header (choose_config_path e s args) @ t)"
  shows "prepare_config y r24' r16' e' args' s1
    = (Inr (apply_env_overrides e' (build_config r24 r16 s args d)), s1)"
proof -
  let ?p = "choose_config_path e s args"
  obtain yaml s0 where y: "yaml_to_string y (build_config r24 r16 s args d) = Some yaml"
    "fs_create_dir_all (parent_dir ?p) s = (Inr (), s0)"
    "fs_write ?p (config_header ?p @ yaml) s0 = (Inr (), s1)"
    using assms(2,1) by (rule first_start) (use assms(3) in auto)
  have "fs_wf s0" using y(2) assms(6) by (auto simp: fs_create_dir_all_def fs_wf_def split: if_splits)
  then have "fs_content s1 ?p = Some (config_header ?p @ yaml)"
    using fsys.write_ok [OF _ y(3)] by simp
  moreover have "\<not> fs_is_dir s1 ?p" using y(3) by (auto simp: fs_write_def fs_is_dir_def split: if_splits)
  ultimately have "fs_read_to_string s1 ?p = Inr (config_header ?p @ yaml)" "fs_exists s1 ?p"
    using assms(7) [OF y(1)] by (auto simp: fs_read_to_string_Inr fs_exists_def fs_is_file_def)
  then show ?thesis
    using assms(4,5) assms(7) [OF y(1)]
    by (simp add: prepare_config_def Let_def load_config_def or_error_simps)
qed

lemma domain_overrides: "domain (apply_env_overrides e cfg) = domain cfg"
  by (simp add: apply_env_overrides_def override_defs split: option.split)

text \<open>C26: The configuration of the first start is the configuration of every later start, up to the
  environment: as long as YAML reads back what it wrote, and comments before it are skipped, a later
  start with the same path, without \<open>--force\<close>, runs with what the first one built, and leaves the file
  alone.\<close>

theorem first_config_reused:
  assumes "prepare_config y r24 r16 e args s = (Inr cfg, s1)"
    and "\<not> fs_exists s (choose_config_path e s args) \<or> sa_force args" and "sa_domain args = Some d"
    and "choose_config_path e' s1 args' = choose_config_path e s args" and "\<not> sa_force args'"
    and "fs_wf s" and "\<And>c t. yaml_to_string y c = Some t \<Longrightarrow>
      yaml_from_str y (config_header (choose_config_path e s args) @ t) = Some c
      \<and> is_str (config_header (choose_config_path e s args) @ t)"
  shows "prepare_config y r24' r16' e' args' s1
    = (Inr (apply_env_overrides e' (build_config r24 r16 s args d)), s1)"
  by (rule written_config_read [OF assms])

text \<open>C27: An empty domain sticks. When the first start is given an empty domain, as
  \<open>docker-compose.yml\<close> gives it with \<open>DOMAIN\<close> unset, it writes a configuration that no start
  can run with, and every later start, whatever domain it is given, reads that one and fails.\<close>

theorem empty_domain_sticks:
  assumes "prepare_config y r24 r16 e args s = (Inr cfg, s1)"
    and "\<not> fs_exists s (choose_config_path e s args) \<or> sa_force args" and "sa_domain args = Some []"
    and "choose_config_path e' s1 args' = choose_config_path e s args" and "\<not> sa_force args'"
    and "fs_wf s" and "\<And>c t. yaml_to_string y c = Some t \<Longrightarrow>
      yaml_from_str y (config_header (choose_config_path e s args) @ t) = Some c
      \<and> is_str (config_header (choose_config_path e s args) @ t)"
  shows "run_server y r24 r16 e args now s = (Inl (RunFailed DomainRequired), s1)
    \<and> run_server y r24' r16' e' args' now' s1 = (Inl (RunFailed DomainRequired), s1)"
proof -
  have cfg: "cfg = apply_env_overrides e (build_config r24 r16 s args [])"
    using assms(2,1) by (rule first_start) (use assms(3) in auto)
  have empty: "domain (apply_env_overrides f (build_config r24 r16 s args [])) = []" for f
    unfolding domain_overrides by (simp add: build_config_def Let_def)
  show ?thesis
    by (intro conjI run_server_no_domain [OF assms(1)]
        run_server_no_domain [OF written_config_read [OF assms]]) (simp_all add: cfg empty)
qed


subsection \<open>A first start\<close>

abbreviation demo_first_args :: "string \<Rightarrow> start_args" where
  "demo_first_args d \<equiv> \<lparr>sa_domain = Some d, sa_token = None, sa_dashboard_token = None,
     sa_control_port = 1, sa_public_port = 2, sa_config = Some ''/c/s.yaml'', sa_force = False\<rparr>"

abbreviation demo_server_env :: environment where
  "demo_server_env \<equiv> \<lparr>env_vars = [], euid = 0\<rparr>"

abbreviation demo_server_fs :: fs where
  "demo_server_fs \<equiv> \<lparr>fs_files = [], fs_dirs = [''/c''], fs_denied = [], fs_writes = []\<rparr>"

definition demo_built :: "string \<Rightarrow> server_config" where
  "demo_built d = build_config [1] [2] demo_server_fs (demo_first_args d) d"

definition demo_server_yaml :: "string \<Rightarrow> yaml_codec" where
  "demo_server_yaml d =
     \<lparr>yaml_from_str = (\<lambda>_. Some (demo_built d)),
      yaml_to_string = (\<lambda>c. if c = demo_built d then Some ''x'' else None)\<rparr>"

lemma demo_path_chosen: "choose_config_path demo_server_env f (demo_first_args d) = ''/c/s.yaml''"
  by (simp add: choose_config_path_def)

lemma demo_prepared:
  "\<exists>s1. prepare_config (demo_server_yaml d) [1] [2] demo_server_env (demo_first_args d) demo_server_fs
     = (Inr (apply_env_overrides demo_server_env (demo_built d)), s1)"
  by (simp add: prepare_config_def Let_def demo_path_chosen fs_exists_def fs_is_file_def fs_is_dir_def
      dm_get_def parent_dir_def fs_create_dir_all_def demo_server_yaml_def demo_built_def fs_write_def)

lemma demo_server_yaml_laws:
  assumes "yaml_to_string (demo_server_yaml d) c = Some t"
  shows "yaml_from_str (demo_server_yaml d) (config_header (choose_config_path demo_server_env
      demo_server_fs (demo_first_args d)) @ t) = Some c
    \<and> is_str (config_header (choose_config_path demo_server_env demo_server_fs (demo_first_args d)) @ t)"
proof -
  have "c = demo_built d" "t = ''x''"
    using assms by (auto simp: demo_server_yaml_def split: if_splits)
  moreover have "is_str (config_header ''/c/s.yaml'' @ ''x'')"
    by (rule ascii_is_str) (simp add: config_header_def)
  ultimately show ?thesis by (simp add: demo_path_chosen demo_server_yaml_def)
qed

lemma demo_not_there: "\<not> fs_exists demo_server_fs (choose_config_path demo_server_env demo_server_fs
    (demo_first_args d)) \<or> sa_force (demo_first_args d)"
  by (simp add: demo_path_chosen fs_exists_def fs_is_file_def fs_is_dir_def dm_get_def)

theorem first_config_reused_witness:
  "\<exists>s1. fst (prepare_config (demo_server_yaml ''t.io'') [3] [4] demo_server_env
      (demo_first_args ''other.io'') s1) = Inr (apply_env_overrides demo_server_env (demo_built ''t.io''))"
proof -
  obtain s1 where s1: "prepare_config (demo_server_yaml ''t.io'') [1] [2] demo_server_env
      (demo_first_args ''t.io'') demo_server_fs = (Inr (apply_env_overrides demo_server_env (demo_built ''t.io'')), s1)"
    using demo_prepared by blast
  have "fs_wf demo_server_fs" by (simp add: fs_wf_def dm_wf_def)
  from first_config_reused [OF s1 demo_not_there _ _ _ this demo_server_yaml_laws,
      of "''t.io''" demo_server_env "demo_first_args ''other.io''" "[3]" "[4]"]
  have "prepare_config (demo_server_yaml ''t.io'') [3] [4] demo_server_env (demo_first_args ''other.io'') s1
      = (Inr (apply_env_overrides demo_server_env (demo_built ''t.io'')), s1)"
    by (simp add: demo_path_chosen demo_built_def)
  then show ?thesis by (intro exI [of _ s1]) simp
qed

theorem empty_domain_sticks_witness:
  "\<exists>s1. fst (run_server (demo_server_yaml []) [3] [4] demo_server_env (demo_first_args ''t.io'') 5 s1
       :: (_, server_config \<times> (string, string, string) site) res \<times> fs) = Inl (RunFailed DomainRequired)"
proof -
  obtain s1 where s1: "prepare_config (demo_server_yaml []) [1] [2] demo_server_env
      (demo_first_args []) demo_server_fs = (Inr (apply_env_overrides demo_server_env (demo_built [])), s1)"
    using demo_prepared by blast
  have "fs_wf demo_server_fs" by (simp add: fs_wf_def dm_wf_def)
  from empty_domain_sticks [OF s1 demo_not_there _ _ _ this demo_server_yaml_laws,
      of demo_server_env "demo_first_args ''t.io''" 0 "[3]" "[4]" 5]
  have "run_server (demo_server_yaml []) [3] [4] demo_server_env (demo_first_args ''t.io'') 5 s1
      = (Inl (RunFailed DomainRequired) :: (_, server_config \<times> (string, string, string) site) res, s1)"
    by (auto simp: demo_path_chosen)
  then show ?thesis by (intro exI [of _ s1]) simp
qed

theorem first_start_is_closed_witness:
  "\<exists>st :: (string, string \<Rightarrow> string option, nat) site. \<exists>i a n. sy_conns (st_sys st) ! i = Serving a n
     \<and> ar_client_id a = ''app'' \<and> ar_token a = ''01''"
proof -
  let ?cfg = "apply_env_overrides demo_server_env (demo_built ''t.io'')"
  let ?a = "\<lparr>ar_client_id = ''app'', ar_token = ''01'', ar_version = None\<rparr>"
  have tok: "first_token [1] demo_server_env (demo_first_args ''t.io'') = ''01''"
    by (simp add: first_token_def non_empty_def env_var_def dm_get_def generate_token_def hex02_def
        hex_digit_def char_of_eq_iff take_bit_nat_def)
  have cfg: "auth_tokens ?cfg = [''01'']" "domain ?cfg = ''t.io''"
    unfolding demo_built_def first_token_only tok
    by (simp_all add: domain_overrides build_config_def Let_def)
  obtain s1 where s1: "prepare_config (demo_server_yaml ''t.io'') [1] [2] demo_server_env
      (demo_first_args ''t.io'') demo_server_fs = (Inr ?cfg, s1)" using demo_prepared by blast
  obtain s0 :: "(string, string \<Rightarrow> string option, nat) sys" where s0: "server_run ?cfg 0 s1 = Inr s0"
    using cfg(2) by (simp add: server_run_def)
  then have run: "run_server (demo_server_yaml ''t.io'') [1] [2] demo_server_env
      (demo_first_args ''t.io'') 0 demo_server_fs
    = (Inr (?cfg, \<lparr>st_sys = s0, st_store = session_store_new (session_ttl ?cfg), st_history = []\<rparr>), sy_fs s0)"
    using s1 by (simp add: run_server_def site_run_def)
  have "sessions_made s0 = 0" using s0 cfg(2) by (auto simp: server_run_def server_state_new_def)
  then have "Suc (sessions_made s0) < 2 ^ 64" by simp
  from registration_steps [OF reachable.start [OF s0, of demo_lib] this, of ?a]
  obtain s' i n where s': "server_steps ?cfg demo_lib s0 s'" "i < length (sy_conns s')"
    "sy_conns s' ! i = Serving ?a n" "registry_get (registry_of s') ''app'' = Some n"
    "sessions_made s' = 1"
    using cfg(1) \<open>sessions_made s0 = 0\<close> by (auto simp: validate_token_iff RESERVED_SUBDOMAINS_def)
  note reach = idle_site_reachable [OF reachable_steps [OF s'(1) reachable.start [OF s0]],
      where A = demo_axum and ct_eq = "(=)"]
  have few: "sessions_made s' < 2 ^ 64" using s'(5) by simp
  have "\<exists>i < length (sy_conns s'). \<exists>a. sy_conns s' ! i = Serving a n
      \<and> ar_client_id a = ''app'' \<and> ar_token a = ''01''"
    using first_start_is_closed [OF run demo_not_there _ reach, of "''app''" n] few s'(4) tok by simp
  then obtain i a where "sy_conns s' ! i = Serving a n" "ar_client_id a = ''app''" "ar_token a = ''01''"
    by blast
  then show ?thesis
    by (intro exI [of _ "\<lparr>st_sys = s', st_store = session_store_new (session_ttl ?cfg),
        st_history = []\<rparr>"] exI [of _ i] exI [of _ a] exI [of _ n]) simp
qed


section \<open>The client\<close>

text \<open>The name of a tunnel to stop; whether to go on without a question.\<close>

type_synonym stop_args = "string option"
type_synonym uninstall_args = bool

datatype command =
  Config config_action
| Http http_args
| Status
| Stop stop_args
| Upgrade
| Uninstall uninstall_args

datatype main_error = CliFailed cli_error | UpdateFailed update_error

text \<open>What the commands take from outside: see \<open>Client_Cli\<close> and \<open>Self_Update\<close>. The two kinds of
  commands work on the same files.\<close>

record main_env =
  mn_version :: string
  mn_alive :: "(int \<times> nat) list \<Rightarrow> int \<Rightarrow> bool"
  mn_yaml :: client_yaml
  mn_env :: environment
  mn_random :: bytes
  mn_child :: "u32 option"
  mn_views :: "observation list"
  mn_rounds :: "client \<Rightarrow> nat \<Rightarrow> round"
  mn_statuses :: "tunnel_status list"
  mn_os :: os

record main_world =
  mw_cli :: cli_world
  mw_cmds :: "string list list"

definition run_cli :: "(cli_world \<Rightarrow> (cli_error, unit) res \<times> cli_world) \<Rightarrow> main_world
    \<Rightarrow> (main_error, unit) res \<times> main_world" where
  "run_cli f w = (case f (mw_cli w) of (r, c) \<Rightarrow> (map_err CliFailed r, w\<lparr>mw_cli := c\<rparr>))"

definition run_update :: "(su_world \<Rightarrow> (update_error, unit) res \<times> su_world) \<Rightarrow> main_world
    \<Rightarrow> (main_error, unit) res \<times> main_world" where
  "run_update f w =
     (case f \<lparr>su_fs = ci_fs (mw_cli w), su_cmds = mw_cmds w\<rparr> of
        (r, u) \<Rightarrow> (map_err UpdateFailed r,
                   w\<lparr>mw_cli := (mw_cli w)\<lparr>ci_fs := su_fs u\<rparr>, mw_cmds := su_cmds u\<rparr>))"

text \<open>\<open>None\<close>: the command goes on for ever, as \<open>http\<close> does until it is cancelled.\<close>

fun client_main :: "main_env \<Rightarrow> command \<Rightarrow> main_world
    \<Rightarrow> ((main_error, unit) res \<times> main_world) option" where
  "client_main n (Config action) w = Some (run_cli (cmd_config (mn_yaml n) (mn_env n) action) w)"
| "client_main n (Http args) w =
     map_option (\<lambda>(r, c). (map_err CliFailed r, w\<lparr>mw_cli := c\<rparr>))
       (cmd_http (mn_version n) (mn_alive n) (mn_yaml n) (mn_env n) (mn_random n) (mn_child n)
          (mn_views n) (mn_rounds n) (mn_statuses n) args (mw_cli w))"
| "client_main n Status w =
     Some (run_cli (cmd_status (mn_version n) (mn_alive n) (mn_yaml n) (mn_env n)) w)"
| "client_main n (Stop name) w = Some (run_cli (cmd_stop (mn_alive n) (mn_env n) name) w)"
| "client_main n Upgrade w = Some (run_update (upgrade (mn_os n) ''zotunnel'' (mn_version n)) w)"
| "client_main n (Uninstall yes) w =
     Some (run_update (uninstall (mn_os n) ''zotunnel'' Client yes False) w)"

text \<open>Uninstalling does not stop the background tunnels: it removes the program and the directory with
  their pid files, sends no signal, and what it leaves running can no longer be listed or stopped.\<close>

lemma uninstall_orphans_tunnels:
  assumes "env_var (os_env (mn_os n)) ''HOME'' = Some home"
    and "dir = path_join home ''.zotunnel''" and "fs_is_dir (ci_fs (mw_cli w)) dir"
    and "dir \<notin> set (fs_denied (ci_fs (mw_cli w)))" and "CHR ''/'' \<notin> set name"
    and "uninstall_path (mn_os n) ''zotunnel'' \<notin> set (fs_denied (ci_fs (mw_cli w)))"
    and "\<not> fs_is_dir (ci_fs (mw_cli w)) (uninstall_path (mn_os n) ''zotunnel'')"
  shows "\<exists>w'. client_main n (Uninstall True) w = Some (Inr (), w')
    \<and> cw_signals (mw_cli w') = cw_signals (mw_cli w)
    \<and> recorded_pid (ci_fs (mw_cli w')) (pid_file (path_join dir ''tunnels'') name) = None"
proof -
  let ?p = "pid_file (path_join dir ''tunnels'') name"
  have "\<not> starts_with ''/'' (name @ ''.pid'')" using assms(5) by (intro not_absolute) auto
  then have below: "below dir ?p"
    by (auto simp: below_def pid_file_def path_join_def starts_with_iff)
  let ?u = "\<lparr>su_fs = ci_fs (mw_cli w), su_cmds = mw_cmds w\<rparr>"
  obtain u1 where u1: "(if fs_exists (ci_fs (mw_cli w)) (uninstall_path (mn_os n) ''zotunnel'')
      then remove_with_sudo (mn_os n) (uninstall_path (mn_os n) ''zotunnel'') ?u else (Inr (), ?u))
      = (Inr (), u1)" "fs_is_dir (su_fs u1) dir" "fs_denied (su_fs u1) = fs_denied (ci_fs (mw_cli w))"
    using assms(3,6,7)
    by (cases "fs_is_file (ci_fs (mw_cli w)) (uninstall_path (mn_os n) ''zotunnel'')")
       (simp_all add: remove_with_sudo_def su_io_def fs_remove_file_def fs_exists_def fs_is_dir_def)
  then have "uninstall (mn_os n) ''zotunnel'' Client True False ?u
      = (Inr (), remove_client_dir (mn_os n) u1)"
    by (simp add: uninstall_def uninstall_confirmed_def Let_def)
  moreover have "fs_content (su_fs (remove_client_dir (mn_os n) u1)) ?p = None"
    using u1 assms(1,2,4) below
    by (auto simp: remove_client_dir_def Let_def fs_exists_def su_io_def fs_remove_dir_all_def
        dm_get_def map_of_eq_None_iff)
  ultimately show ?thesis
    by (simp add: run_update_def recorded_pid_def fs_read_to_string_def fs_read_def bind_res_eq_Inr
        split: sum.split)
qed

end
