(* ===== verification/Unit_Tests.thy ===== *)
theory Unit_Tests
  imports Proxy Traefik Self_Update
begin

text \<open>
  The repository's own unit tests, run on the model: each \<open>#[test]\<close> function is a definition
  that computes whether its assertions hold, and is shown to pass. A model on which a test of the
  program failed would not be a model of the program. Where a test asserts less than its name
  promises, or holds only by luck, the lemma after it says so. The three tests that parse YAML are
  about \<open>serde_yaml\<close>, a parameter here, and are left out.
\<close>

section \<open>Wire protocol\<close>

text \<open>A message through a \<open>duplex\<close> pipe with room for it: written at one end, read at the
  other.\<close>

definition through_pipe :: "codec \<Rightarrow> message \<Rightarrow> (proto_error, message) res" where
  "through_pipe c msg =
     (case write_message c fresh_writer msg of
        (Inl e, _) \<Rightarrow> Inl e
      | (Inr _, w) \<Rightarrow> fst (read_message c (written w)))"

definition test_auth_req :: auth_req where
  "test_auth_req = \<lparr>ar_client_id = ''test-client'', ar_token = ''secret123'', ar_version = None\<rparr>"

definition test_roundtrip_auth_req :: "codec \<Rightarrow> bool" where
  "test_roundtrip_auth_req c \<longleftrightarrow>
     (case through_pipe c (AuthReq test_auth_req) of
        Inr (AuthReq auth) \<Rightarrow> ar_client_id auth = ''test-client'' \<and> ar_token auth = ''secret123''
      | _ \<Rightarrow> False)"

definition test_auth_res :: auth_res where
  "test_auth_res = \<lparr>as_success = True, as_message = ''OK'', as_public_port = Some 6210,
     as_assigned_route = Some ''my-app''\<rparr>"

definition test_roundtrip_auth_res :: "codec \<Rightarrow> bool" where
  "test_roundtrip_auth_res c \<longleftrightarrow>
     (case through_pipe c (AuthRes test_auth_res) of
        Inr (AuthRes rs) \<Rightarrow> as_success rs \<and> as_assigned_route rs = Some ''my-app''
      | _ \<Rightarrow> False)"

definition test_roundtrip_ping_pong :: "codec \<Rightarrow> bool" where
  "test_roundtrip_ping_pong c \<longleftrightarrow> through_pipe c Ping = Inr Ping \<and> through_pipe c Pong = Inr Pong"

definition test_roundtrip_new_conn :: "codec \<Rightarrow> 128 word \<Rightarrow> bool" where
  "test_roundtrip_new_conn c conn_id \<longleftrightarrow>
     (case through_pipe c (NewConn \<lparr>nc_conn_id = conn_id\<rparr>) of
        Inr (NewConn nc) \<Rightarrow> nc_conn_id nc = conn_id
      | _ \<Rightarrow> False)"

definition test_denied :: auth_res where
  "test_denied = \<lparr>as_success = False, as_message = ''denied'', as_public_port = None,
     as_assigned_route = None\<rparr>"

definition test_auth_res_with_none_fields :: "codec \<Rightarrow> bool" where
  "test_auth_res_with_none_fields c \<longleftrightarrow>
     (case through_pipe c (AuthRes test_denied) of
        Inr (AuthRes rs) \<Rightarrow> \<not> as_success rs \<and> as_message rs = ''denied''
          \<and> as_public_port rs = None \<and> as_assigned_route rs = None
      | _ \<Rightarrow> False)"

definition test_read_from_closed_connection :: "codec \<Rightarrow> bool" where
  "test_read_from_closed_connection c \<longleftrightarrow> isl (fst (read_message c []))"

definition test_long_id :: string where
  "test_long_id = replicate 1000 CHR ''a''"

definition test_large_client_id :: "codec \<Rightarrow> bool" where
  "test_large_client_id c \<longleftrightarrow>
     (case through_pipe c (AuthReq \<lparr>ar_client_id = test_long_id, ar_token = ''t'',
             ar_version = None\<rparr>) of
        Inr (AuthReq auth) \<Rightarrow> ar_client_id auth = test_long_id
      | _ \<Rightarrow> False)"

definition test_constants :: bool where
  "test_constants \<longleftrightarrow>
     PROTOCOL_VERSION = 1 \<and> MAX_PAYLOAD_SIZE = 16 * 1024 * 1024
     \<and> DEFAULT_CONTROL_PORT = 6200 \<and> DEFAULT_PUBLIC_PORT = 6210
     \<and> HEARTBEAT_INTERVAL_SECS = 15 \<and> HEARTBEAT_TIMEOUT_SECS = 90
     \<and> TAKEOVER_AFTER_MISSED_HEARTBEATS = 2 \<and> SESSION_STALE_SECS = 90"

text \<open>What the tests ask of \<open>serde_json\<close>: a message has an encoding, not too long, that is read
  back.\<close>

definition codec_carries :: "codec \<Rightarrow> message \<Rightarrow> bool" where
  "codec_carries c m \<longleftrightarrow>
     (case encode_payload c m of
        Inr p \<Rightarrow> length p \<le> unat MAX_PAYLOAD_SIZE \<and> decode_message c (msg_type m) p = Inr m
      | Inl _ \<Rightarrow> False)"

lemma through_pipe_carried: "codec_carries c m \<Longrightarrow> through_pipe c m = Inr m"
proof (cases "encode_payload c m")
  case (Inr p)
  assume "codec_carries c m"
  then have p: "length p \<le> unat MAX_PAYLOAD_SIZE" "decode_message c (msg_type m) p = Inr m"
    using Inr by (simp_all add: codec_carries_def)
  then have "\<not> (word_of_nat (length p) :: u32) > MAX_PAYLOAD_SIZE"
    using payload_len_ok [of "length p"] by simp
  then have "write_message c fresh_writer m = (Inr (), fresh_writer\<lparr>written := frame (msg_type m) p\<rparr>)"
    by (simp add: write_message_def Inr write_all_def frame_def Let_def)
  then show ?thesis using read_message_frame [OF p(1), of c "msg_type m" "[]"] p(2)
    by (simp add: through_pipe_def)
qed (simp add: codec_carries_def)

lemma protocol_tests_pass:
  "codec_carries c (AuthReq test_auth_req) \<Longrightarrow> test_roundtrip_auth_req c"
  "codec_carries c (AuthRes test_auth_res) \<Longrightarrow> test_roundtrip_auth_res c"
  "test_roundtrip_ping_pong c"
  "codec_carries c (NewConn \<lparr>nc_conn_id = i\<rparr>) \<Longrightarrow> test_roundtrip_new_conn c i"
  "codec_carries c (AuthRes test_denied) \<Longrightarrow> test_auth_res_with_none_fields c"
  "test_read_from_closed_connection c"
  "codec_carries c (AuthReq \<lparr>ar_client_id = test_long_id, ar_token = ''t'', ar_version = None\<rparr>)
    \<Longrightarrow> test_large_client_id c"
  "test_constants"
proof -
  have carries: "codec_carries c Ping" "codec_carries c Pong" by (simp_all add: codec_carries_def)
  show "test_roundtrip_ping_pong c"
    using carries [THEN through_pipe_carried] by (simp add: test_roundtrip_ping_pong_def)
  show "test_read_from_closed_connection c"
    by (simp add: test_read_from_closed_connection_def read_message_def read_exact_def)
  show test_constants by (simp add: test_constants_def PROTOCOL_VERSION_def MAX_PAYLOAD_SIZE_def DEFAULT_CONTROL_PORT_def
        DEFAULT_PUBLIC_PORT_def HEARTBEAT_INTERVAL_SECS_def HEARTBEAT_TIMEOUT_SECS_def
        TAKEOVER_AFTER_MISSED_HEARTBEATS_def SESSION_STALE_SECS_def)
qed (simp_all add: test_roundtrip_auth_req_def test_roundtrip_auth_res_def test_roundtrip_new_conn_def
    test_auth_res_with_none_fields_def test_large_client_id_def through_pipe_carried
    test_auth_req_def test_auth_res_def test_denied_def)

section \<open>Registry\<close>

text \<open>\<open>YamuxHandle::mock\<close> and \<open>mock_closed\<close>: a task that waits for ever, with its receiver
  kept or dropped. \<open>activity\<close>: the two cells, the first some seconds in the past.\<close>

definition mock :: "heap \<Rightarrow> nat \<times> heap" where
  "mock s = (length (tasks s),
     s\<lparr>tasks := tasks s @ [\<lparr>receiver_alive = True, abort_requested = False\<rparr>]\<rparr>)"

definition mock_closed :: "heap \<Rightarrow> nat \<times> heap" where
  "mock_closed s = (length (tasks s),
     s\<lparr>tasks := tasks s @ [\<lparr>receiver_alive = False, abort_requested = False\<rparr>]\<rparr>)"

definition activity_cells :: "nat \<Rightarrow> u32 \<Rightarrow> heap \<Rightarrow> nat \<times> nat \<times> heap" where
  "activity_cells age_secs missed_hb s =
     (length (activity s), length (missed s),
      s\<lparr>activity := activity s @ [Some (clock s - from_secs age_secs)],
        missed := missed s @ [missed_hb]\<rparr>)"

definition test_heap :: "instant \<Rightarrow> heap" where
  "test_heap now = \<lparr>clock = now, tasks = [], activity = [], missed = [], clients_heap = []\<rparr>"

text \<open>A handle, its cells and a registration, as every test makes them.\<close>

definition test_register :: "string \<Rightarrow> (heap \<Rightarrow> nat \<times> heap) \<Rightarrow> bool \<Rightarrow> nat \<Rightarrow> u32 \<Rightarrow> registry \<Rightarrow> heap
    \<Rightarrow> (register_error, nat \<times> bool) res \<times> registry \<times> heap" where
  "test_register client_id handle hb age missed_hb r s =
     (let (h, s1) = handle s; (la, mh, s2) = activity_cells age missed_hb s1
      in register client_id h hb la mh r s2)"

text \<open>The start of seven tests: one client, then a second one under the same id.\<close>

definition second_registration :: "instant \<Rightarrow> (heap \<Rightarrow> nat \<times> heap) \<Rightarrow> bool \<Rightarrow> nat \<Rightarrow> u32
    \<Rightarrow> (nat \<times> nat \<times> bool \<times> registry \<times> heap) option" where
  "second_registration now h1 hb age missed_hb =
     (case test_register ''app'' h1 hb age missed_hb registry_new (test_heap now) of
        (Inr (old, _), r, s) \<Rightarrow>
          (case test_register ''app'' mock hb 0 0 r s of
             (Inr (new, replaced), r', s') \<Rightarrow> Some (old, new, replaced, r', s')
           | _ \<Rightarrow> None)
      | _ \<Rightarrow> None)"

abbreviation sid :: "heap \<Rightarrow> nat \<Rightarrow> u64" where
  "sid s e \<equiv> ce_session_id (clients_heap s ! e)"

definition replaces :: "(nat \<times> nat \<times> bool \<times> registry \<times> heap) option \<Rightarrow> bool" where
  "replaces x \<longleftrightarrow> (case x of Some (old, new, replaced, r, s) \<Rightarrow> replaced \<and> sid s old \<noteq> sid s new
      | None \<Rightarrow> False)"

definition register_fresh_session :: "instant \<Rightarrow> bool" where
  "register_fresh_session now \<longleftrightarrow>
     (case test_register ''app'' mock True 0 0 registry_new (test_heap now) of
        (Inr (entry, replaced), r, s) \<Rightarrow>
          \<not> replaced \<and> registry_count r = 1
          \<and> (case unregister ''app'' (sid s entry) s r of (removed, r') \<Rightarrow> removed \<and> registry_count r' = 0)
      | _ \<Rightarrow> False)"

definition healthy_duplicate_is_taken_over :: "instant \<Rightarrow> bool" where
  "healthy_duplicate_is_taken_over now \<longleftrightarrow>
     (case second_registration now mock True 0 0 of
        Some (first, second, replaced, r, s) \<Rightarrow>
          replaced \<and> sid s first \<noteq> sid s second
          \<and> map_option (sid s) (registry_get r ''app'') = Some (sid s second)
          \<and> (case unregister ''app'' (sid s first) s r of
               (removed, r1) \<Rightarrow> \<not> removed \<and> fst (unregister ''app'' (sid s second) s r1))
      | None \<Rightarrow> False)"

definition takeover_aborts_previous_even_with_one_missed_heartbeat :: "instant \<Rightarrow> bool" where
  "takeover_aborts_previous_even_with_one_missed_heartbeat now \<longleftrightarrow>
     replaces (second_registration now mock True 25 1)"

definition takeover_after_two_missed_heartbeats :: "instant \<Rightarrow> bool" where
  "takeover_after_two_missed_heartbeats now \<longleftrightarrow>
     (case second_registration now mock True 20 TAKEOVER_AFTER_MISSED_HEARTBEATS of
        Some (old, new, replaced, r, s) \<Rightarrow>
          replaced \<and> sid s old \<noteq> sid s new
          \<and> (case unregister ''app'' (sid s old) s r of
               (removed, r1) \<Rightarrow> \<not> removed \<and> fst (unregister ''app'' (sid s new) s r1))
      | None \<Rightarrow> False)"

definition takeover_after_wall_clock_stale :: "instant \<Rightarrow> bool" where
  "takeover_after_wall_clock_stale now \<longleftrightarrow>
     replaces (second_registration now mock True (SESSION_STALE_SECS + 1) 0)"

definition takeover_closed_driver_even_if_recent :: "instant \<Rightarrow> bool" where
  "takeover_closed_driver_even_if_recent now \<longleftrightarrow>
     replaces (second_registration now mock_closed True 0 0)"

definition legacy_client_reconnect_takes_over :: "instant \<Rightarrow> bool" where
  "legacy_client_reconnect_takes_over now \<longleftrightarrow> replaces (second_registration now mock False 25 0)"

definition legacy_client_takeover_after_idle :: "instant \<Rightarrow> bool" where
  "legacy_client_takeover_after_idle now \<longleftrightarrow>
     replaces (second_registration now mock False (SESSION_STALE_SECS + 1) 0)"

definition reject_reserved_subdomain :: "instant \<Rightarrow> bool" where
  "reject_reserved_subdomain now \<longleftrightarrow>
     (case test_register ''dashboard'' mock True 0 0 registry_new (test_heap now) of
        (Inl e, _) \<Rightarrow> contains_str ''reserved'' (register_error_text e)
      | _ \<Rightarrow> False)"

text \<open>Whatever the first client's handle and cells: the second registration replaces it under a new
  number, and the driver of the first is told to stop. The test with \<open>aborts_previous\<close> in its name
  does not look at the driver.\<close>

lemma second_registration_replaces:
  assumes "h1 = mock \<or> h1 = mock_closed"
  shows "\<exists>r s. second_registration now h1 hb age missed_hb = Some (0, 1, True, r, s)
    \<and> sid s 0 = 1 \<and> sid s 1 = 2 \<and> registry_get r ''app'' = Some 1 \<and> clients r = [(''app'', 1)]
    \<and> abort_requested (tasks s ! 0)"
  using assms
  by (auto simp: second_registration_def test_register_def mock_def mock_closed_def
      activity_cells_def register_def register_alloc_def register_insert_def Let_def test_heap_def
      registry_new_def RESERVED_SUBDOMAINS_def dm_empty_def dm_get_def dm_put_def registry_get_def
      handle_abort_def)

lemma registry_tests_pass:
  "register_fresh_session now" "healthy_duplicate_is_taken_over now"
  "takeover_aborts_previous_even_with_one_missed_heartbeat now"
  "takeover_after_two_missed_heartbeats now" "takeover_after_wall_clock_stale now"
  "takeover_closed_driver_even_if_recent now" "legacy_client_reconnect_takes_over now"
  "legacy_client_takeover_after_idle now" "reject_reserved_subdomain now"
proof -
  note two = second_registration_replaces [of mock now] second_registration_replaces [of mock_closed now]
  have late: "clients r = [(''app'', 1)] \<Longrightarrow> sid s 1 = 2 \<Longrightarrow> unregister ''app'' 1 s r = (False, r)"
    "clients r = [(''app'', 1)] \<Longrightarrow> sid s 1 = 2 \<Longrightarrow> fst (unregister ''app'' 2 s r)" for r s
    by (simp_all add: unregister_def dm_get_def dm_remove_if_def)
  show "register_fresh_session now" "reject_reserved_subdomain now"
    by (simp_all add: register_fresh_session_def reject_reserved_subdomain_def test_register_def
        mock_def activity_cells_def register_def register_alloc_def register_insert_def Let_def
        test_heap_def registry_new_def RESERVED_SUBDOMAINS_def dm_empty_def dm_get_def dm_put_def
        registry_count_def unregister_def dm_remove_if_def starts_with_def)
  show "healthy_duplicate_is_taken_over now"
    using two(1) [of True 0 0] late by (fastforce simp: healthy_duplicate_is_taken_over_def)
  show "takeover_after_two_missed_heartbeats now"
    using two(1) [of True 20 TAKEOVER_AFTER_MISSED_HEARTBEATS] late
    by (fastforce simp: takeover_after_two_missed_heartbeats_def)
  show "takeover_aborts_previous_even_with_one_missed_heartbeat now"
    using two(1) [of True 25 1]
    by (fastforce simp: takeover_aborts_previous_even_with_one_missed_heartbeat_def replaces_def)
  show "takeover_after_wall_clock_stale now"
    using two(1) [of True "SESSION_STALE_SECS + 1" 0]
    by (fastforce simp: takeover_after_wall_clock_stale_def replaces_def)
  show "takeover_closed_driver_even_if_recent now"
    using two(2) [of True 0 0] by (fastforce simp: takeover_closed_driver_even_if_recent_def replaces_def)
  show "legacy_client_reconnect_takes_over now"
    using two(1) [of False 25 0] by (fastforce simp: legacy_client_reconnect_takes_over_def replaces_def)
  show "legacy_client_takeover_after_idle now"
    using two(1) [of False "SESSION_STALE_SECS + 1" 0]
    by (fastforce simp: legacy_client_takeover_after_idle_def replaces_def)
qed

section \<open>Metrics and rate limiter\<close>

definition test_rate_limiter_disabled :: "instant list \<Rightarrow> bool" where
  "test_rate_limiter_disabled ts \<longleftrightarrow>
     length ts = 1000
     \<longrightarrow> list_all snd (check_run (map (\<lambda>t. (t, ''test'')) ts) (rate_limiter_new 0))"

text \<open>The five calls of the second test, at the times they happen to be made.\<close>

definition test_rate_limiter_basic :: "instant \<Rightarrow> instant \<Rightarrow> instant \<Rightarrow> instant \<Rightarrow> instant \<Rightarrow> bool" where
  "test_rate_limiter_basic t1 t2 t3 t4 t5 \<longleftrightarrow>
     map snd (check_run [(t1, ''client-a''), (t2, ''client-a''), (t3, ''client-a''),
         (t4, ''client-a''), (t5, ''client-b'')] (rate_limiter_new 3))
       = [True, True, True, False, True]"

definition test_metrics_snapshot :: "instant \<Rightarrow> instant \<Rightarrow> bool" where
  "test_metrics_snapshot created now \<longleftrightarrow>
     (let m = metrics_new created;
          m = m\<lparr>total_requests := total_requests m + 42\<rparr>;
          m = m\<lparr>failed_auth := failed_auth m + 3\<rparr>;
          snap = snapshot now m
      in ms_total_requests snap = 42 \<and> ms_failed_auth snap = 3 \<and> ms_active_connections snap = 0
         \<and> ms_uptime_secs snap < 2)"

lemma disabled_limiter_allows:
  "max_per_second rl = 0 \<Longrightarrow> list_all snd (check_run rs rl)"
  by (induction rs) (auto simp: check_def)

lemma limiter_tests_pass:
  "test_rate_limiter_disabled ts"
  "as_secs (now - created) < 2 \<Longrightarrow> test_metrics_snapshot created now"
  by (simp_all add: test_rate_limiter_disabled_def rate_limiter_new_def disabled_limiter_allows
      test_metrics_snapshot_def metrics_new_def snapshot_def elapsed_def)

text \<open>The second limiter test needs its first four calls to be made within one second, and fails on
  a machine that pauses for a second before the fourth.\<close>

lemma limiter_basic_iff:
  assumes "t1 \<le> t2" "t2 \<le> t3" "t3 \<le> t4"
  shows "test_rate_limiter_basic t1 t2 t3 t4 t5 \<longleftrightarrow> as_secs (t4 - t1) < 1"
proof -
  have mono: "as_secs (t2 - t1) \<le> as_secs (t4 - t1)" "as_secs (t3 - t1) \<le> as_secs (t4 - t1)"
    using assms by (auto simp: as_secs_def intro!: div_le_mono)
  show ?thesis
    using mono
    by (simp add: test_rate_limiter_basic_def check_def rate_limiter_new_def Let_def dm_get_def
        dm_put_def dm_empty_def as_secs_def)
qed

section \<open>Versions and platforms\<close>

definition test_is_newer :: bool where
  "test_is_newer \<longleftrightarrow>
     is_newer ''0.4.1'' ''v0.5.0'' \<and> is_newer ''0.4.1'' ''v0.4.2'' \<and> is_newer ''0.4.1'' ''v1.0.0''
     \<and> \<not> is_newer ''0.4.1'' ''v0.4.1'' \<and> \<not> is_newer ''0.5.0'' ''v0.4.1''
     \<and> \<not> is_newer ''1.0.0'' ''v0.9.9''"

definition test_is_newer_with_v_prefix :: bool where
  "test_is_newer_with_v_prefix \<longleftrightarrow>
     is_newer ''v0.4.1'' ''v0.5.0'' \<and> \<not> is_newer ''v0.5.0'' ''v0.4.1''
     \<and> \<not> is_newer ''v0.4.1'' ''v0.4.1''"

definition test_detect_target :: "os \<Rightarrow> bool" where
  "test_detect_target os \<longleftrightarrow>
     (case detect_target os of
        Inr t \<Rightarrow> t = ''linux-amd64'' \<or> t = ''linux-arm64'' \<or> t = ''darwin-amd64''
                  \<or> t = ''darwin-arm64''
      | Inl _ \<Rightarrow> False)"

lemma version_tests_pass: "test_is_newer" "test_is_newer_with_v_prefix"
  by (simp_all add: test_is_newer_def test_is_newer_with_v_prefix_def is_newer_def parse_version_def
      map_filter_def parse_u32_def parse_unsigned_def nth_opt_def is_ascii_digit_def digit_val_def)

text \<open>The platforms on which the last test passes.\<close>

lemma detect_target_test_iff:
  "test_detect_target os \<longleftrightarrow>
     os_name os \<in> {''linux'', ''macos''} \<and> os_arch os \<in> {''x86_64'', ''aarch64''}"
  by (auto simp: test_detect_target_def detect_target_def split: if_splits)

section \<open>Server configuration\<close>

definition test_default_config :: bool where
  "test_default_config \<longleftrightarrow>
     (let cfg = server_config_default
      in control_port cfg = 6200 \<and> public_port cfg = 6210 \<and> domain cfg = [] \<and> auth_tokens cfg = []
         \<and> da_token (dashboard_auth cfg) = [] \<and> da_session_ttl_secs (dashboard_auth cfg) = 86400)"

definition test_validate_token_empty_allows_all :: bool where
  "test_validate_token_empty_allows_all \<longleftrightarrow>
     validate_token server_config_default ''anything'' \<and> validate_token server_config_default []"

definition test_validate_token_checks_list :: bool where
  "test_validate_token_checks_list \<longleftrightarrow>
     (let cfg = server_config_default\<lparr>auth_tokens := [''secret1'', ''secret2'']\<rparr>
      in validate_token cfg ''secret1'' \<and> validate_token cfg ''secret2''
         \<and> \<not> validate_token cfg ''wrong'' \<and> \<not> validate_token cfg [])"

definition test_dashboard_auth_disabled_by_default :: "(bytes \<Rightarrow> bytes \<Rightarrow> bool) \<Rightarrow> bool" where
  "test_dashboard_auth_disabled_by_default ct_eq \<longleftrightarrow>
     \<not> dashboard_auth_enabled server_config_default
     \<and> validate_dashboard_token ct_eq server_config_default ''anything''"

definition test_dashboard_auth_validates_token :: "(bytes \<Rightarrow> bytes \<Rightarrow> bool) \<Rightarrow> bool" where
  "test_dashboard_auth_validates_token ct_eq \<longleftrightarrow>
     (let cfg = server_config_default\<lparr>dashboard_auth :=
            (dashboard_auth server_config_default)\<lparr>da_token := ''super-secret-admin''\<rparr>\<rparr>
      in dashboard_auth_enabled cfg
         \<and> validate_dashboard_token ct_eq cfg ''super-secret-admin''
         \<and> \<not> validate_dashboard_token ct_eq cfg ''wrong-token''
         \<and> \<not> validate_dashboard_token ct_eq cfg []
         \<and> \<not> validate_dashboard_token ct_eq cfg ''super-secret-admin-extra''
         \<and> \<not> validate_dashboard_token ct_eq cfg ''super'')"

text \<open>None of the wrong tokens of the last test has the length of the right one: it does not
  exercise the comparison, and passes for one that always answers yes.\<close>

lemma config_tests_pass:
  "test_default_config" "test_validate_token_empty_allows_all" "test_validate_token_checks_list"
  "test_dashboard_auth_disabled_by_default ct_eq"
  "ct_eq (as_bytes ''super-secret-admin'') (as_bytes ''super-secret-admin'')
    \<Longrightarrow> test_dashboard_auth_validates_token ct_eq"
  by (simp_all add: test_default_config_def test_validate_token_empty_allows_all_def
      test_validate_token_checks_list_def test_dashboard_auth_disabled_by_default_def
      test_dashboard_auth_validates_token_def server_config_default_def dashboard_auth_default_def
      default_session_ttl_def DEFAULT_CONTROL_PORT_def DEFAULT_PUBLIC_PORT_def validate_token_def
      dashboard_auth_enabled_def validate_dashboard_token_def Let_def as_bytes_def)

section \<open>Route files\<close>

definition sanitize_keeps_safe_chars :: bool where
  "sanitize_keeps_safe_chars \<longleftrightarrow>
     sanitize_id ''my-api_1'' = ''my-api_1'' \<and> sanitize_id ''bad/name'' = ''bad_name''"

definition test_manager :: "string \<Rightarrow> traefik_manager" where
  "test_manager dir = \<lparr>tm_config = traefik_default\<lparr>tc_enabled := True, tc_config_dir := dir\<rparr>,
     tm_domain = ''tunnel.example.com''\<rparr>"

text \<open>A file has the same modification time if nothing was written to it.\<close>

definition modified :: "fs \<Rightarrow> string \<Rightarrow> nat" where
  "modified f p = length (filter (\<lambda>q. q = p) (fs_writes f))"

definition add_client_skips_identical_rewrite :: "string \<Rightarrow> fs \<Rightarrow> bool" where
  "add_client_skips_identical_rewrite dir f \<longleftrightarrow>
     (let mgr = test_manager dir; path = path_join dir ''zo-tunnel-omnivoice.yml'' in
      case fs_create_dir_all dir f of (Inl _, _) \<Rightarrow> False
      | (Inr _, f1) \<Rightarrow> (case add_client mgr ''omnivoice'' f1 of (Inl _, _) \<Rightarrow> False
      | (Inr _, f2) \<Rightarrow> (case fs_read_to_string f2 path of Inl _ \<Rightarrow> False
      | Inr first \<Rightarrow> (case add_client mgr ''omnivoice'' f2 of (Inl _, _) \<Rightarrow> False
      | (Inr _, f3) \<Rightarrow> (case fs_read_to_string f3 path of Inl _ \<Rightarrow> False
      | Inr second \<Rightarrow> first = second \<and> modified f2 path = modified f3 path)))))"

definition cleanup_clients_keeps_live_routers :: "string \<Rightarrow> fs \<Rightarrow> bool" where
  "cleanup_clients_keeps_live_routers dir f \<longleftrightarrow>
     (let mgr = test_manager dir; legacy = path_join dir ''zo-oldstyle.yml'' in
      case fs_create_dir_all dir f of (Inl _, _) \<Rightarrow> False
      | (Inr _, f1) \<Rightarrow> (case add_client mgr ''omnivoice'' f1 of (Inl _, _) \<Rightarrow> False
      | (Inr _, f2) \<Rightarrow> (case fs_write legacy (''legacy'' @ [CHR 0x0A]) f2 of (Inl _, _) \<Rightarrow> False
      | (Inr _, f3) \<Rightarrow> (case cleanup_clients mgr f3 of (Inl _, _) \<Rightarrow> False
      | (Inr _, f4) \<Rightarrow> fs_exists f4 (path_join dir ''zo-tunnel-omnivoice.yml'')
                         \<and> \<not> fs_exists f4 legacy))))"

abbreviation test_dir :: string where
  "test_dir \<equiv> ''/tmp/zo-tunnel-traefik-0''"

abbreviation test_fs :: fs where
  "test_fs \<equiv> \<lparr>fs_files = [], fs_dirs = [''/tmp''], fs_denied = [], fs_writes = []\<rparr>"

lemma test_config_dir: "tc_config_dir (tm_config (test_manager dir)) = dir"
  by (simp add: test_manager_def)

lemma test_client_file:
  "client_file (test_manager test_dir) (sanitize_id ''omnivoice'')
     = ''/tmp/zo-tunnel-traefik-0/zo-tunnel-omnivoice.yml''"
proof -
  have "sanitize_id ''omnivoice'' = ''omnivoice''"
    by (rule sanitize_id_ident) (auto simp: safe_char_def)
  then show ?thesis by (simp add: client_file_def path_join_def starts_with_def test_manager_def)
qed

lemma test_route_text: "is_str (client_route (test_manager test_dir) ''omnivoice'')"
  by (rule is_str_client_route)
     (simp_all add: test_manager_def traefik_default_def default_entrypoint_def
        default_cert_resolver_def)

abbreviation test_fs_made :: fs where
  "test_fs_made \<equiv> \<lparr>fs_files = [], fs_dirs = [test_dir, ''/tmp''], fs_denied = [], fs_writes = []\<rparr>"

abbreviation test_path :: string where
  "test_path \<equiv> ''/tmp/zo-tunnel-traefik-0/zo-tunnel-omnivoice.yml''"

abbreviation test_fs_routed :: fs where
  "test_fs_routed \<equiv> \<lparr>fs_files = [(test_path, client_route (test_manager test_dir) ''omnivoice'')],
     fs_dirs = [test_dir, ''/tmp''], fs_denied = [], fs_writes = [test_path]\<rparr>"

text \<open>The route file is written, once.\<close>

lemma test_add_client:
  "fs_read_to_string test_fs_routed test_path = Inr (client_route (test_manager test_dir) ''omnivoice'')"
  "add_client (test_manager test_dir) ''omnivoice'' test_fs_made = (Inr (), test_fs_routed)"
  "add_client (test_manager test_dir) ''omnivoice'' test_fs_routed = (Inr (), test_fs_routed)"
proof -
  show r: "fs_read_to_string test_fs_routed test_path
      = Inr (client_route (test_manager test_dir) ''omnivoice'')"
    using test_route_text by (simp add: fs_read_to_string_Inr fs_is_dir_def dm_get_def)
  show "add_client (test_manager test_dir) ''omnivoice'' test_fs_made = (Inr (), test_fs_routed)"
    by (simp add: add_client_def Let_def test_client_file fs_exists_def fs_is_file_def fs_is_dir_def
        fs_write_def parent_dir_def dm_get_def dm_put_def)
  show "add_client (test_manager test_dir) ''omnivoice'' test_fs_routed = (Inr (), test_fs_routed)"
    unfolding add_client_def Let_def test_client_file r
    by (simp add: fs_exists_def fs_is_file_def dm_get_def)
qed

lemma test_legacy_names:
  "legacy_name (of_chars (chars ''zo-oldstyle.yml''))"
  "\<not> legacy_name (of_chars (chars ''zo-tunnel-omnivoice.yml''))"
proof -
  have "is_str ''zo-oldstyle.yml''" "is_str ''zo-tunnel-omnivoice.yml''"
    by (simp_all add: ascii_is_str ascii_def)
  then show "legacy_name (of_chars (chars ''zo-oldstyle.yml''))"
    "\<not> legacy_name (of_chars (chars ''zo-tunnel-omnivoice.yml''))"
    by (simp_all add: of_chars_chars legacy_name_def starts_with_def ends_with_def strip_suffix_def)
qed

lemma traefik_tests_pass:
  "sanitize_keeps_safe_chars" "add_client_skips_identical_rewrite test_dir test_fs"
  "cleanup_clients_keeps_live_routers test_dir test_fs"
proof -
  have dir: "fs_create_dir_all test_dir test_fs = (Inr (), test_fs_made)"
    by (simp add: fs_create_dir_all_def fs_is_dir_def fs_is_file_def dm_get_def)
  have path: "path_join test_dir ''zo-tunnel-omnivoice.yml'' = test_path"
    "path_join test_dir ''zo-oldstyle.yml'' = ''/tmp/zo-tunnel-traefik-0/zo-oldstyle.yml''"
    by (simp_all add: path_join_def starts_with_def)
  show sanitize_keeps_safe_chars
    by (simp add: sanitize_keeps_safe_chars_def sanitize_id_alt chars_ascii safe_char_def
        str_bytes_def char_of_eq_iff take_bit_nat_def)
  show "add_client_skips_identical_rewrite test_dir test_fs"
    unfolding add_client_skips_identical_rewrite_def Let_def dir path
    by (simp add: test_add_client)
  show "cleanup_clients_keeps_live_routers test_dir test_fs"
    unfolding cleanup_clients_keeps_live_routers_def Let_def dir path
    by (simp add: test_add_client cleanup_clients_def cleanup_legacy_routes_def test_config_dir
        fs_write_def fs_is_dir_def parent_dir_def dm_put_def fs_read_dir_def dir_name_def
        path_join_def starts_with_def map_filter_def test_legacy_names fs_remove_file_def
        fs_is_file_def dm_get_def dm_remove_def dm_remove_if_def fs_exists_def Let_def)
qed

section \<open>Routing\<close>

text \<open>The copy of \<open>extract_routing\<close> that the tests of \<open>proxy.rs\<close> check in its place, on the
  text of the \<open>Host\<close> header and of the path.\<close>

definition extract_subdomain_routing :: "string \<Rightarrow> string \<Rightarrow> string \<Rightarrow> (string \<times> string) option" where
  "extract_subdomain_routing host path domn =
     (let hnp = host_no_port host; suffix = ''.'' @ domn in
      if ends_with suffix hnp then
        (case strip_suffix suffix hnp of
           None \<Rightarrow> None
         | Some client_id \<Rightarrow> if client_id = [] then None else Some (client_id, path))
      else None)"

definition test_subdomain_routing_basic :: bool where
  "test_subdomain_routing_basic \<longleftrightarrow>
     extract_subdomain_routing ''webapp.tunnel.zobite.com'' ''/api/users'' ''tunnel.zobite.com''
       = Some (''webapp'', ''/api/users'')"

definition test_subdomain_routing_with_port :: bool where
  "test_subdomain_routing_with_port \<longleftrightarrow>
     extract_subdomain_routing ''webapp.tunnel.zobite.com:6210'' ''/'' ''tunnel.zobite.com''
       = Some (''webapp'', ''/'')"

definition test_subdomain_routing_no_match :: bool where
  "test_subdomain_routing_no_match \<longleftrightarrow>
     extract_subdomain_routing ''other.domain.com'' ''/'' ''tunnel.zobite.com'' = None"

definition test_subdomain_exact_domain_no_subdomain :: bool where
  "test_subdomain_exact_domain_no_subdomain \<longleftrightarrow>
     extract_subdomain_routing ''tunnel.zobite.com'' ''/'' ''tunnel.zobite.com'' = None"

definition test_subdomain_path_preserved :: bool where
  "test_subdomain_path_preserved \<longleftrightarrow>
     extract_subdomain_routing ''myapp.tunnel.zobite.com'' ''/dashboard/settings?tab=profile''
         ''tunnel.zobite.com''
       = Some (''myapp'', ''/dashboard/settings?tab=profile'')"

definition test_subdomain_deep_path :: bool where
  "test_subdomain_deep_path \<longleftrightarrow>
     extract_subdomain_routing ''api.tunnel.zobite.com'' ''/v2/users/123/posts'' ''tunnel.zobite.com''
       = Some (''api'', ''/v2/users/123/posts'')"

lemma routing_tests_pass:
  "test_subdomain_routing_basic" "test_subdomain_routing_with_port" "test_subdomain_routing_no_match"
  "test_subdomain_exact_domain_no_subdomain" "test_subdomain_path_preserved"
  "test_subdomain_deep_path"
  by (simp_all add: test_subdomain_routing_basic_def test_subdomain_routing_with_port_def
      test_subdomain_routing_no_match_def test_subdomain_exact_domain_no_subdomain_def
      test_subdomain_path_preserved_def test_subdomain_deep_path_def extract_subdomain_routing_def
      host_no_port_takeWhile ends_with_def strip_suffix_def)

text \<open>What the tests check holds of the code: the copy and the original agree on every request,
  for the path without its query.\<close>

lemma extract_routing_as_tested:
  "extract_routing L req domn =
     (case header_str L (rq_headers req) ''host'' of
        Some host \<Rightarrow> extract_subdomain_routing host (uri_path L (rq_uri req)) domn
      | None \<Rightarrow> None)"
  by (simp add: extract_routing_def extract_subdomain_routing_def split: option.split)

end
