(* ===== verification/Spec2Isabelle.thy ===== *)
theory Spec2Isabelle
  imports Protocol Traefik Server_Config Metrics Registry Driver Proxy Sessions Server_Safety
    Directory References Restart Dashboard Dashboard_Http Site Client_Config Client_Session Client_Tls
    Client_Cli Self_Update Tunnel Programs Unit_Tests
begin

text \<open>
  Zo Tunnel: a verification development.

  \<^bold>\<open>The program.\<close> A client (\<open>crates/zo-tunnel-client\<close>) opens a control connection
  to the server (\<open>crates/zo-tunnel-server\<close>), authenticates with one message of the wire
  protocol (\<open>crates/zo-tunnel-protocol\<close>) and then runs a yamux session over it. The server
  keeps the sessions in a registry under the client's id, drives each yamux session with a task that
  also sends heartbeats, writes a Traefik route for each client, and serves public HTTP: requests for
  \<open><id>.<domain>\<close> go through a stream of the id's session to the client's local service,
  requests for the domain itself and for \<open>dashboard.<domain>\<close> go to the dashboard. A client
  that reconnects under the same id takes over: the old session is told to stop and must not remove
  the new one.

  \<^bold>\<open>Which theory models what.\<close>

  \<^item> \<^theory_text>\<open>Prelude\<close>, \<^theory_text>\<open>Utf8\<close>: the standard library's \<open>Result\<close>,
    \<open>str\<close>, numbers as text, time; UTF-8. A \<open>String\<close> is the list of its bytes.
  \<^item> \<^theory_text>\<open>Atomic_Map\<close>: \<open>DashMap\<close>, as the locale \<open>atomic_map\<close> and its
    interpretation. \<^theory_text>\<open>File_System\<close>: \<open>std::path\<close> and \<open>std::fs\<close>, with the
    contract \<open>file_store\<close>. \<^theory_text>\<open>Transitions\<close>: invariants and simulations of step
    relations that hold up to a bound, as locales.
  \<^item> \<^theory_text>\<open>Protocol\<close>: \<open>zo-tunnel-protocol/src/lib.rs\<close>, messages and frames.
  \<^item> \<^theory_text>\<open>Traefik\<close>: \<open>traefik.rs\<close>, the route files.
    \<^theory_text>\<open>Server_Config\<close>: \<open>config.rs\<close> and \<open>main.rs\<close> of the server.
    \<^theory_text>\<open>Metrics\<close>: \<open>metrics.rs\<close>, counters and the rate limiter.
  \<^item> \<^theory_text>\<open>Registry\<close>: \<open>registry.rs\<close>, over a heap of the objects the server's tasks
    share; its contract is the locale \<open>session_table\<close>.
  \<^item> \<^theory_text>\<open>Driver\<close>: the task of \<open>spawn_yamux_driver\<close> in \<open>server.rs\<close>, each branch
    of its \<open>select!\<close> an event.
  \<^item> \<^theory_text>\<open>Proxy\<close>: \<open>proxy.rs\<close>; the request handler is cut at its awaits, so that
    requests interleave with each other and with everything else.
  \<^item> \<^theory_text>\<open>Sessions\<close>: \<open>accept_clients\<close>, \<open>handle_client\<close>, \<open>serve_http\<close>
    and \<open>run\<close> of \<open>server.rs\<close>: the whole server as one step relation \<open>server_step\<close>,
    whose steps are those of the sessions, the drivers, the requests and the clock.
    \<^theory_text>\<open>Server_Safety\<close>: what holds in all its reachable states.
    \<^theory_text>\<open>References\<close>: no index of the model dangles.
    \<^theory_text>\<open>Directory\<close>: what sessions and registry promise, as a small machine the server
    refines. \<^theory_text>\<open>Restart\<close>: the end of \<open>run\<close>, and the route files across restarts.
  \<^item> \<^theory_text>\<open>Dashboard\<close>: \<open>dashboard.rs\<close>, login sessions, cookies, API, downloads.
    \<^theory_text>\<open>Dashboard_Http\<close>: its routes and \<open>handle_dashboard\<close> of \<open>server.rs\<close>.
    \<^theory_text>\<open>Site\<close>: server and dashboard on one public port, \<open>serve_http\<close>.
  \<^item> \<^theory_text>\<open>Client_Config\<close>, \<^theory_text>\<open>Client_Session\<close>, \<^theory_text>\<open>Client_Cli\<close>:
    \<open>config.rs\<close>, \<open>client.rs\<close> and \<open>main.rs\<close> of the client: configuration, one session
    and the reconnect loop, the commands and the background tunnels with their pid files.
    \<^theory_text>\<open>Client_Tls\<close>: \<open>tls_connect\<close> and \<open>NoVerifier\<close> of \<open>client.rs\<close>.
  \<^item> \<^theory_text>\<open>Self_Update\<close>: \<open>self_update.rs\<close>: versions, upgrade, uninstall, systemd.
  \<^item> \<^theory_text>\<open>Tunnel\<close>: client and server together. \<^theory_text>\<open>Programs\<close>: \<open>run_server\<close>
    and the client's \<open>main\<close>, from the parsed command line on.
  \<^item> \<^theory_text>\<open>Unit_Tests\<close>: the repository's own tests, computed on the model.

  Definitions have the names of the functions they model, or say in the text before them which part
  of which function they are.

  \<^bold>\<open>What is shown.\<close> Wire: what is written is read back, cut frames are errors,
  what is accepted is well-formed and bounded. Registry: it implements a map from ids to sessions
  numbered in order, under takeovers and late removals. Server: it refines the directory, in which a
  session takes its id once and never comes back after it lost it; in every reachable state its
  references resolve, whoever is registered is served, authenticated and was told so; any authorised
  client can register; a superseded session can end and removes nothing; requests never reach another
  client; the gauges count the requests in flight and those abandoned; a client listed as healthy has
  a running driver. Driver: heartbeats are counted exactly, replies come in order. Limiter: bounds
  and progress. Dashboard: login sessions implement a specification over the history; on the whole
  site, the clients' token, their list and the counters are for those who logged in, and what others
  see does not depend on them; the client list is true; cookies round trip; downloads are confined.
  Route files survive restarts. A first start admits nobody without its token, and its configuration
  is read back. Client: its statuses are true, it reconnects until cancelled and no longer, the token
  goes to no server the chosen verifier has not accepted, pid files round trip, signals go to
  recorded processes only. Update: versions compare as numbers, only newer releases are fetched.
  Together: the handshake over the wire, the stream markers, and a new tunnel from its request to its
  first visitor. The tests of the repository pass.

  \<^bold>\<open>Parameters.\<close> The JSON and YAML libraries, \<open>hyper\<close>'s URIs and
  headers, the route lookup of \<open>axum\<close>, the handshake of \<open>rustls\<close>, the
  constant-time comparison, random bytes, the outcomes of \<open>yamux\<close>, of sockets and of
  external commands, whether a process lives. What a theorem needs of them is a hypothesis of it.

  \<^bold>\<open>Bounds.\<close> Machine integers have their width. Theorems on reachable states ask for
  fewer than \<open>2^64\<close> sessions ever made, as many as the session counter can tell apart. There is
  no fuel: loops that may not end are step relations or \<open>partial_function (option)\<close>, where
  \<open>None\<close> is a run without end.

  \<^bold>\<open>Not modelled.\<close> The web pages themselves, sockets below the streams, logging
  and console output of the installer, command-line parsing, packaging, the tests that only parse
  YAML. Atomics are sequentially consistent here, and a task runs undisturbed between two awaits
  except where the source itself splits an operation on shared state.
\<close>

end
